theory Spec2Isabelle
  imports Main "HOL-Library.Word" "HOL-Library.Multiset" "HOL-Library.List_Lexorder"
begin

section \<open>Data model of the PrivateSend mixing server\<close>

text \<open>
  The embedding follows \<^verbatim>\<open>src/privatesend/privatesend-server.cpp\<close> and
  \<^verbatim>\<open>src/privatesend.h\<close>.  Fixed-width hashes, indices and script bytes are
  machine words; amounts, times and counters that the server only compares or
  copies are integers.  A peer address (\<^verbatim>\<open>CService\<close>) is an opaque number.
\<close>

type_synonym uint256 = "256 word"
type_synonym CScript = "8 word list"
type_synonym CAmount = int
type_synonym CService = nat

text \<open>\<^verbatim>\<open>COutPoint\<close>: the field \<^verbatim>\<open>n\<close> of the source is called \<open>nIndex\<close> here.\<close>

record COutPoint =
  hash :: uint256
  nIndex :: "32 word"

record CTxIn =
  prevout :: COutPoint
  scriptSig :: CScript
  nSequence :: "32 word"

text \<open>\<^verbatim>\<open>class CTxDSIn : public CTxIn\<close>; slicing to the base class is \<open>CTxIn.truncate\<close>.\<close>

record CTxDSIn = CTxIn +
  prevPubKey :: CScript
  fHasSig :: bool
  nSentTimes :: int

record CTxOut =
  nValue :: CAmount
  scriptPubKey :: CScript

text \<open>Only the input and output vectors of a transaction are touched by the server.\<close>

record CMutableTransaction =
  vin :: "CTxIn list"
  vout :: "CTxOut list"

type_synonym CTransaction = CMutableTransaction

datatype PoolMessage =
    ERR_ALREADY_HAVE | ERR_DENOM | ERR_ENTRIES_FULL | ERR_EXISTING_TX | ERR_FEES
  | ERR_INVALID_COLLATERAL | ERR_INVALID_INPUT | ERR_INVALID_SCRIPT | ERR_INVALID_TX
  | ERR_MAXIMUM | ERR_MN_LIST | ERR_MODE | ERR_NON_STANDARD_PUBKEY | ERR_NOT_A_MN
  | ERR_QUEUE_FULL | ERR_RECENT | ERR_SESSION | ERR_MISSING_TX | ERR_VERSION
  | MSG_NOERR | MSG_SUCCESS | MSG_ENTRIES_ADDED

datatype PoolState =
    POOL_STATE_IDLE | POOL_STATE_QUEUE | POOL_STATE_ACCEPTING_ENTRIES
  | POOL_STATE_SIGNING | POOL_STATE_ERROR | POOL_STATE_SUCCESS

datatype PoolStatusUpdate = STATUS_REJECTED | STATUS_ACCEPTED

record CPrivateSendEntry =
  vecTxDSIn :: "CTxDSIn list"
  vecTxOut :: "CTxOut list"
  txCollateral :: CTransaction
  addr :: CService

record CPrivateSendAccept =
  dsa_nDenom :: int
  dsa_txCollateral :: CTransaction

text \<open>
  The queue advertisement (\<^verbatim>\<open>CDarksendQueue\<close> in \<^verbatim>\<open>privatesend.h\<close>, used as
  \<^verbatim>\<open>CPrivateSendQueue\<close> by the server).  The header stores the masternode as a
  \<^verbatim>\<open>CTxIn\<close> of which only the prevout is compared; the server names that outpoint
  \<^verbatim>\<open>masternodeOutpoint\<close>.
\<close>

record CPrivateSendQueue =
  nDenom :: int
  masternodeOutpoint :: COutPoint
  nTime :: int
  fReady :: bool
  vchSig :: "8 word list"
  fTried :: bool

record CPrivateSendBroadcastTx =
  tx :: CTransaction
  dstx_masternodeOutpoint :: COutPoint
  dstx_vchSig :: "8 word list"
  sigTime :: int

record CNode =
  node_addr :: CService
  nVersion :: int

text \<open>Everything the server hands to the network layer or to the mempool, in order.\<close>

datatype event =
    MsgStatusUpdate CService int PoolState int PoolStatusUpdate PoolMessage
  | MsgReject CService
  | MsgFinalTx CService int CMutableTransaction
  | MsgComplete CService int PoolMessage
  | RelayQueue CPrivateSendQueue
  | RelayInvDSTX uint256
  | PrioritiseTransaction uint256
  | MempoolSubmit CTransaction
  | RelayTransaction CTransaction
  | Misbehaving CService int
  | AllowMixing COutPoint

text \<open>
  The members of \<^verbatim>\<open>CPrivateSendServer\<close> (with its base classes), followed by the
  process-wide index \<^verbatim>\<open>mapDSTX\<close>, the trace of outward effects and the number of
  random draws taken so far.
\<close>

record CPrivateSendServer =
  vecSessionCollaterals :: "CTransaction list"
  vecPrivateSendQueue :: "CPrivateSendQueue list"
  vecEntries :: "CPrivateSendEntry list"
  nState :: PoolState
  nTimeLastSuccessfulStep :: int
  nSessionID :: int
  nSessionDenom :: int
  finalMutableTransaction :: CMutableTransaction
  mapDSTX :: "uint256 \<rightharpoonup> CPrivateSendBroadcastTx"
  sent :: "event list"
  nRand :: nat

text \<open>
  What one call reads from the rest of the node: flags, clocks, chain parameters, the
  validation and script routines, the peer table, the lock attempts and the random source.
  None of these is defined under \<^verbatim>\<open>src/\<close>; each is a parameter.
\<close>

record env =
  fMasternodeMode :: bool
  fLiteMode :: bool
  fUnitTest :: bool
  IsBlockchainSynced :: bool
  GetTime :: int
  GetAdjustedTime :: int
  GetMaxPoolParticipants :: int
  GetMinPoolParticipants :: int
  IsValidDenomination :: "int \<Rightarrow> bool"
  IsCollateralValid :: "CTransaction \<Rightarrow> bool"
  IsValidInOuts :: "int \<Rightarrow> CTxIn list \<Rightarrow> CTxOut list \<Rightarrow> PoolMessage \<Rightarrow> bool \<times> PoolMessage \<times> bool"
  VerifyScript :: "CScript \<Rightarrow> CScript \<Rightarrow> CMutableTransaction \<Rightarrow> nat \<Rightarrow> bool"
  AcceptToMemoryPool :: "CTransaction \<Rightarrow> bool"
  GetHash :: "CMutableTransaction \<Rightarrow> uint256"
  connected :: "CService \<Rightarrow> bool"
  lockMain :: bool
  lockRecv :: bool
  RandStream :: "nat \<Rightarrow> nat"
  activeMasternodeOutpoint :: COutPoint
  SignQueue :: "CPrivateSendQueue \<Rightarrow> 8 word list"
  SignDSTX :: "CPrivateSendBroadcastTx \<Rightarrow> 8 word list"
  GetValidMNByCollateral :: "COutPoint \<Rightarrow> bool"
  CheckSignature :: "CPrivateSendQueue \<Rightarrow> bool"
  GetLastDsq :: "COutPoint \<Rightarrow> int"
  GetValidMNsCount :: nat
  GetDsqCount :: int
  lockRecv2 :: bool
  ShutdownRequested :: bool

definition PRIVATESEND_QUEUE_TIMEOUT :: int where
  "PRIVATESEND_QUEUE_TIMEOUT = 30"

definition PRIVATESEND_SIGNING_TIMEOUT :: int where
  "PRIVATESEND_SIGNING_TIMEOUT = 15"

definition MIN_PRIVATESEND_PEER_PROTO_VERSION :: int where
  "MIN_PRIVATESEND_PEER_PROTO_VERSION = 70206"

text \<open>
  Machine arithmetic.  \<^verbatim>\<open>int64_wrap\<close> is the two's-complement reading of a 64-bit result
  (\<^verbatim>\<open>int64_t\<close>), \<^verbatim>\<open>int32_wrap\<close> that of a 32-bit one (\<^verbatim>\<open>int\<close>), and \<^verbatim>\<open>uint64_of\<close> the
  conversion of a signed value to \<^verbatim>\<open>size_t\<close>.
\<close>

definition int64_wrap :: "int \<Rightarrow> int" where
  "int64_wrap x = (x + 2 ^ 63) mod 2 ^ 64 - 2 ^ 63"

definition int32_wrap :: "int \<Rightarrow> int" where
  "int32_wrap x = (x + 2 ^ 31) mod 2 ^ 32 - 2 ^ 31"

definition uint64_of :: "int \<Rightarrow> int" where
  "uint64_of x = x mod 2 ^ 64"

definition PRIVATESEND_ENTRY_MAX_SIZE :: nat where
  "PRIVATESEND_ENTRY_MAX_SIZE = 9"


section \<open>Sorting and shuffling primitives\<close>

text \<open>
  \<^verbatim>\<open>std::sort(first, last, comp)\<close>: the result is a rearrangement of the range in
  which no element is \<open>comp\<close>-smaller than one before it.  The order among
  \<open>comp\<close>-equivalent elements is unspecified by the language; the model inserts
  from the right, which fixes one such order.
\<close>

fun sort_insert :: "('a \<Rightarrow> 'a \<Rightarrow> bool) \<Rightarrow> 'a \<Rightarrow> 'a list \<Rightarrow> 'a list" where
  "sort_insert lt x [] = [x]"
| "sort_insert lt x (y # ys) =
     (if lt y x then y # sort_insert lt x ys else x # y # ys)"

definition std_sort :: "('a \<Rightarrow> 'a \<Rightarrow> bool) \<Rightarrow> 'a list \<Rightarrow> 'a list" where
  "std_sort lt xs = foldr (sort_insert lt) xs []"

text \<open>
  Modelled from the spec: the comparators \<^verbatim>\<open>CompareInputBIP69\<close> and
  \<^verbatim>\<open>CompareOutputBIP69\<close> are used by \<^verbatim>\<open>CreateFinalTransaction\<close> but defined outside
  \<^verbatim>\<open>src/\<close>.  The spec gives the canonical order: lexicographic on
  (prev_hash, prev_index) for inputs, on (amount, script) for outputs.
\<close>

definition CompareInputBIP69 :: "CTxIn \<Rightarrow> CTxIn \<Rightarrow> bool" where
  "CompareInputBIP69 a b =
     (hash (prevout a) < hash (prevout b) \<or>
      (hash (prevout a) = hash (prevout b) \<and> nIndex (prevout a) < nIndex (prevout b)))"

definition CompareOutputBIP69 :: "CTxOut \<Rightarrow> CTxOut \<Rightarrow> bool" where
  "CompareOutputBIP69 a b =
     (nValue a < nValue b \<or> (nValue a = nValue b \<and> scriptPubKey a < scriptPubKey b))"

text \<open>
  \<^verbatim>\<open>GetRandInt(nMax)\<close> yields a value in \<open>[0, nMax)\<close>; the draws come from the
  environment's stream, one per call.
\<close>

definition GetRandInt :: "env \<Rightarrow> nat \<Rightarrow> CPrivateSendServer \<Rightarrow> nat \<times> CPrivateSendServer" where
  "GetRandInt e nMax s = (RandStream e (nRand s) mod nMax, s\<lparr>nRand := nRand s + 1\<rparr>)"

text \<open>
  \<^verbatim>\<open>std::random_shuffle\<close>: for each position \<open>i\<close> from 1 upwards, swap the element
  with the one at a random position in \<open>[0, i]\<close>.
\<close>

fun shuffle_loop :: "(nat \<Rightarrow> nat) \<Rightarrow> nat \<Rightarrow> nat list \<Rightarrow> 'a list \<Rightarrow> 'a list" where
  "shuffle_loop rnd k [] xs = xs"
| "shuffle_loop rnd k (i # rest) xs =
     (let j = rnd k mod (i + 1)
      in shuffle_loop rnd (k + 1) rest (xs[i := xs ! j, j := xs ! i]))"

definition random_shuffle ::
  "env \<Rightarrow> 'a list \<Rightarrow> CPrivateSendServer \<Rightarrow> 'a list \<times> CPrivateSendServer" where
  "random_shuffle e xs s =
     (shuffle_loop (RandStream e) (nRand s) [1..<length xs] xs,
      s\<lparr>nRand := nRand s + (length xs - 1)\<rparr>)"

section \<open>Session primitives\<close>

definition emit :: "event \<Rightarrow> CPrivateSendServer \<Rightarrow> CPrivateSendServer" where
  "emit ev s = s\<lparr>sent := sent s @ [ev]\<rparr>"

definition GetEntriesCount :: "CPrivateSendServer \<Rightarrow> nat" where
  "GetEntriesCount s = length (vecEntries s)"

text \<open>
  Modelled from the spec: \<^verbatim>\<open>CPrivateSendBaseSession::SetNull\<close> is declared in
  \<^verbatim>\<open>privatesend.h\<close> but its body is outside \<^verbatim>\<open>src/\<close>.  The spec's reset puts the
  session in Idle with id 0, drops the entries and leaves no final transaction; the
  reset counts as the last step.
\<close>

definition BaseSession_SetNull :: "env \<Rightarrow> CPrivateSendServer \<Rightarrow> CPrivateSendServer" where
  "BaseSession_SetNull e s =
     s\<lparr>nState := POOL_STATE_IDLE, nSessionID := 0, nSessionDenom := 0, vecEntries := [],
       finalMutableTransaction := \<lparr>vin = [], vout = []\<rparr>,
       nTimeLastSuccessfulStep := GetTime e\<rparr>"

text \<open>
  Modelled from the spec: \<^verbatim>\<open>CPrivateSendBaseManager::SetNull\<close> is outside \<^verbatim>\<open>src/\<close>;
  queue advertisements are discarded with the session.
\<close>

definition BaseManager_SetNull :: "CPrivateSendServer \<Rightarrow> CPrivateSendServer" where
  "BaseManager_SetNull s = s\<lparr>vecPrivateSendQueue := []\<rparr>"

definition SetNull :: "env \<Rightarrow> CPrivateSendServer \<Rightarrow> CPrivateSendServer" where
  "SetNull e s = BaseManager_SetNull (BaseSession_SetNull e (s\<lparr>vecSessionCollaterals := []\<rparr>))"

definition SetState :: "env \<Rightarrow> PoolState \<Rightarrow> CPrivateSendServer \<Rightarrow> CPrivateSendServer" where
  "SetState e nStateNew s =
     (if \<not> fMasternodeMode e then s
      else if nStateNew = POOL_STATE_ERROR \<or> nStateNew = POOL_STATE_SUCCESS then s
      else s\<lparr>nTimeLastSuccessfulStep := GetTime e, nState := nStateNew\<rparr>)"

definition HasTimedOut :: "env \<Rightarrow> CPrivateSendServer \<Rightarrow> bool" where
  "HasTimedOut e s =
     (if \<not> fMasternodeMode e then False
      else if nState s = POOL_STATE_IDLE then False
      else let nTimeout = (if nState s = POOL_STATE_SIGNING then PRIVATESEND_SIGNING_TIMEOUT
                           else PRIVATESEND_QUEUE_TIMEOUT)
           in int64_wrap (GetTime e - nTimeLastSuccessfulStep s) \<ge> nTimeout)"

definition IsSessionReady :: "env \<Rightarrow> CPrivateSendServer \<Rightarrow> bool" where
  "IsSessionReady e s =
     (if nState s = POOL_STATE_QUEUE \<and>
         (int (length (vecSessionCollaterals s)) \<ge> GetMaxPoolParticipants e \<or>
          (HasTimedOut e s \<and> int (length (vecSessionCollaterals s)) \<ge> GetMinPoolParticipants e))
      then True
      else if nState s = POOL_STATE_ACCEPTING_ENTRIES then True
      else False)"

text \<open>\<^verbatim>\<open>PushStatus\<close> to a node that exists; the entries count on the wire is always 0.\<close>

definition PushStatus ::
  "CService \<Rightarrow> PoolStatusUpdate \<Rightarrow> PoolMessage \<Rightarrow> CPrivateSendServer \<Rightarrow> CPrivateSendServer" where
  "PushStatus a nStatusUpdate nMessageID s =
     emit (MsgStatusUpdate a (nSessionID s) (nState s) 0 nStatusUpdate nMessageID) s"

text \<open>
  \<^verbatim>\<open>connman.ForNode(addr, f)\<close> runs \<open>f\<close> on the node with that address and returns
  false when there is none; every callback of the server returns true.
\<close>

definition RelayStatus ::
  "env \<Rightarrow> PoolStatusUpdate \<Rightarrow> PoolMessage \<Rightarrow> CPrivateSendServer \<Rightarrow> CPrivateSendServer" where
  "RelayStatus e nStatusUpdate nMessageID s =
     (let s1 = fold (\<lambda>entry st. if connected e (addr entry)
                                 then PushStatus (addr entry) nStatusUpdate nMessageID st
                                 else st) (vecEntries s) s;
          nDisconnected = length (filter (\<lambda>entry. \<not> connected e (addr entry)) (vecEntries s))
      in if nDisconnected = 0 then s1
         else let s2 = fold (\<lambda>entry st. if connected e (addr entry)
                                         then PushStatus (addr entry) STATUS_REJECTED MSG_NOERR st
                                         else st) (vecEntries s1) s1
              in if nDisconnected = length (vecEntries s2) then SetNull e s2 else s2)"

fun RelayFinalTransaction_loop ::
  "env \<Rightarrow> CMutableTransaction \<Rightarrow> CPrivateSendEntry list \<Rightarrow> CPrivateSendServer \<Rightarrow> CPrivateSendServer" where
  "RelayFinalTransaction_loop e txFinal [] s = s"
| "RelayFinalTransaction_loop e txFinal (entry # rest) s =
     (if connected e (addr entry)
      then RelayFinalTransaction_loop e txFinal rest
             (emit (MsgFinalTx (addr entry) (nSessionID s) txFinal) s)
      else RelayStatus e STATUS_REJECTED MSG_NOERR s)"

definition RelayFinalTransaction ::
  "env \<Rightarrow> CMutableTransaction \<Rightarrow> CPrivateSendServer \<Rightarrow> CPrivateSendServer" where
  "RelayFinalTransaction e txFinal s = RelayFinalTransaction_loop e txFinal (vecEntries s) s"

fun RelayCompletedTransaction_loop ::
  "env \<Rightarrow> PoolMessage \<Rightarrow> CPrivateSendEntry list \<Rightarrow> CPrivateSendServer \<Rightarrow> CPrivateSendServer" where
  "RelayCompletedTransaction_loop e nMessageID [] s = s"
| "RelayCompletedTransaction_loop e nMessageID (entry # rest) s =
     (if connected e (addr entry)
      then RelayCompletedTransaction_loop e nMessageID rest
             (emit (MsgComplete (addr entry) (nSessionID s) nMessageID) s)
      else RelayStatus e STATUS_REJECTED MSG_NOERR s)"

definition RelayCompletedTransaction ::
  "env \<Rightarrow> PoolMessage \<Rightarrow> CPrivateSendServer \<Rightarrow> CPrivateSendServer" where
  "RelayCompletedTransaction e nMessageID s =
     RelayCompletedTransaction_loop e nMessageID (vecEntries s) s"

definition ConsumeCollateral :: "env \<Rightarrow> CTransaction \<Rightarrow> CPrivateSendServer \<Rightarrow> CPrivateSendServer" where
  "ConsumeCollateral e txref s =
     (let s1 = emit (MempoolSubmit txref) s
      in if \<not> AcceptToMemoryPool e txref then s1 else emit (RelayTransaction txref) s1)"


section \<open>Queue advertisements\<close>

text \<open>\<^verbatim>\<open>bool IsExpired() { return GetTime() - nTime > PRIVATESEND_QUEUE_TIMEOUT; }\<close>\<close>

definition IsExpired :: "env \<Rightarrow> CPrivateSendQueue \<Rightarrow> bool" where
  "IsExpired e q = (int64_wrap (GetTime e - nTime q) > PRIVATESEND_QUEUE_TIMEOUT)"

text \<open>
  Modelled from the spec: \<^verbatim>\<open>IsTimeOutOfBounds\<close> is called by the \<^verbatim>\<open>DSQUEUE\<close> handler but
  defined outside \<^verbatim>\<open>src/\<close>.  The spec's \<open>is_time_out_of_bounds\<close> is true iff
  \<open>|now - timestamp_unix| > QUEUE_TIMEOUT\<close>; the current time is the network-adjusted
  clock, with which the server stamps its own advertisements.
\<close>

definition IsTimeOutOfBounds :: "env \<Rightarrow> CPrivateSendQueue \<Rightarrow> bool" where
  "IsTimeOutOfBounds e q = (\<bar>GetAdjustedTime e - nTime q\<bar> > PRIVATESEND_QUEUE_TIMEOUT)"

text \<open>\<^verbatim>\<open>operator==\<close> on queue advertisements ignores the signature.\<close>

definition queue_eq :: "CPrivateSendQueue \<Rightarrow> CPrivateSendQueue \<Rightarrow> bool" where
  "queue_eq a b =
     (nDenom a = nDenom b \<and> masternodeOutpoint a = masternodeOutpoint b \<and>
      nTime a = nTime b \<and> fReady a = fReady b)"

text \<open>
  Modelled from the spec: \<^verbatim>\<open>CheckQueue\<close> is called by \<^verbatim>\<open>CheckTimeout\<close> but defined
  outside \<^verbatim>\<open>src/\<close>.  An advertisement has a finite validity window; expired ones
  leave the deduplication buffer.
\<close>

definition CheckQueue :: "env \<Rightarrow> CPrivateSendServer \<Rightarrow> CPrivateSendServer" where
  "CheckQueue e s =
     s\<lparr>vecPrivateSendQueue := filter (\<lambda>q. \<not> IsExpired e q) (vecPrivateSendQueue s)\<rparr>"

section \<open>The broadcast-transaction index\<close>

text \<open>
  Modelled from the spec: \<^verbatim>\<open>CPrivateSend::GetDSTX\<close> and \<^verbatim>\<open>CPrivateSend::AddDSTX\<close> are
  declared in \<^verbatim>\<open>privatesend.h\<close> over \<^verbatim>\<open>std::map<uint256, ...> mapDSTX\<close>; their
  bodies are outside \<^verbatim>\<open>src/\<close>.  The index maps \<open>tx.hash\<close> to the record, \<open>get\<close> looks
  a hash up and \<open>add\<close> deduplicates by hash.
\<close>

definition GetDSTX :: "uint256 \<Rightarrow> CPrivateSendServer \<Rightarrow> CPrivateSendBroadcastTx option" where
  "GetDSTX h s = mapDSTX s h"

definition AddDSTX :: "env \<Rightarrow> CPrivateSendBroadcastTx \<Rightarrow> CPrivateSendServer \<Rightarrow> CPrivateSendServer" where
  "AddDSTX e dstx s =
     (case mapDSTX s (GetHash e (tx dstx)) of
        Some old \<Rightarrow> s
      | None \<Rightarrow> s\<lparr>mapDSTX := (mapDSTX s)(GetHash e (tx dstx) \<mapsto> dstx)\<rparr>)"

section \<open>Fees\<close>

text \<open>
  \<^verbatim>\<open>vecSessionCollaterals.size() - 1\<close> is computed in \<^verbatim>\<open>size_t\<close>: on an empty vector it
  wraps to the largest value.
\<close>

definition size_t_minus_one :: "nat \<Rightarrow> nat" where
  "size_t_minus_one k = (k + 2 ^ 64 - 1) mod 2 ^ 64"

definition offenders_accepting :: "CPrivateSendServer \<Rightarrow> CTransaction list" where
  "offenders_accepting s =
     filter (\<lambda>txColl. \<not> (\<exists>entry \<in> set (vecEntries s). txCollateral entry = txColl))
            (vecSessionCollaterals s)"

definition offenders_signing :: "CPrivateSendServer \<Rightarrow> CTransaction list" where
  "offenders_signing s =
     concat (map (\<lambda>entry. map (\<lambda>txdsin. txCollateral entry)
                               (filter (\<lambda>txdsin. \<not> fHasSig txdsin) (vecTxDSIn entry)))
                 (vecEntries s))"

definition collect_offenders :: "CPrivateSendServer \<Rightarrow> CTransaction list" where
  "collect_offenders s =
     (if nState s = POOL_STATE_ACCEPTING_ENTRIES then offenders_accepting s else []) @
     (if nState s = POOL_STATE_SIGNING then offenders_signing s else [])"

definition ChargeFees :: "env \<Rightarrow> CPrivateSendServer \<Rightarrow> CPrivateSendServer" where
  "ChargeFees e s =
     (if \<not> fMasternodeMode e then s
      else
        let (r1, s1) = GetRandInt e 100 s
        in if r1 > 33 then s1
           else
             let vecOffendersCollaterals = collect_offenders s1
             in if vecOffendersCollaterals = [] then s1
                else
                  let (fStop, s2) =
                        (if length vecOffendersCollaterals
                              \<ge> size_t_minus_one (length (vecSessionCollaterals s1))
                         then (let (r2, s') = GetRandInt e 100 s1 in (r2 > 33, s'))
                         else (False, s1))
                  in if fStop then s2
                     else if length vecOffendersCollaterals \<ge> length (vecSessionCollaterals s2) then s2
                     else
                       let (shuffled, s3) = random_shuffle e vecOffendersCollaterals s2
                       in if nState s3 = POOL_STATE_ACCEPTING_ENTRIES \<or> nState s3 = POOL_STATE_SIGNING
                          then ConsumeCollateral e (hd shuffled) s3
                          else s3)"

fun ChargeRandomFees_loop :: "env \<Rightarrow> CTransaction list \<Rightarrow> CPrivateSendServer \<Rightarrow> CPrivateSendServer" where
  "ChargeRandomFees_loop e [] s = s"
| "ChargeRandomFees_loop e (txColl # rest) s =
     (if fst (GetRandInt e 100 s) > 10 then snd (GetRandInt e 100 s)
      else ChargeRandomFees_loop e rest (ConsumeCollateral e txColl (snd (GetRandInt e 100 s))))"

definition ChargeRandomFees :: "env \<Rightarrow> CPrivateSendServer \<Rightarrow> CPrivateSendServer" where
  "ChargeRandomFees e s =
     (if \<not> fMasternodeMode e then s
      else ChargeRandomFees_loop e (vecSessionCollaterals s) s)"

section \<open>Assembling and committing the final transaction\<close>

definition CreateFinalTransaction :: "env \<Rightarrow> CPrivateSendServer \<Rightarrow> CPrivateSendServer" where
  "CreateFinalTransaction e s =
     (let txNew = \<lparr>vin = concat (map (\<lambda>entry. map CTxIn.truncate (vecTxDSIn entry)) (vecEntries s)),
                   vout = concat (map vecTxOut (vecEntries s))\<rparr>;
          txNew = \<lparr>vin = std_sort CompareInputBIP69 (vin txNew),
                   vout = std_sort CompareOutputBIP69 (vout txNew)\<rparr>;
          s1 = s\<lparr>finalMutableTransaction := txNew\<rparr>;
          s2 = SetState e POOL_STATE_SIGNING s1
      in RelayFinalTransaction e (finalMutableTransaction s2) s2)"

definition CommitFinalTransaction :: "env \<Rightarrow> CPrivateSendServer \<Rightarrow> CPrivateSendServer" where
  "CommitFinalTransaction e s =
     (if \<not> fMasternodeMode e then s
      else
        let finalTransaction = finalMutableTransaction s;
            hashTx = GetHash e finalTransaction;
            s1 = emit (PrioritiseTransaction hashTx) s
        in if \<not> lockMain e then RelayCompletedTransaction e ERR_INVALID_TX (SetNull e s1)
           else if \<not> AcceptToMemoryPool e finalTransaction
           then RelayCompletedTransaction e ERR_INVALID_TX
                  (SetNull e (emit (MempoolSubmit finalTransaction) s1))
           else
             let s2 = emit (MempoolSubmit finalTransaction) s1;
                 s3 = (if GetDSTX hashTx s2 = None
                       then let dstxNew = \<lparr>tx = finalTransaction,
                                           dstx_masternodeOutpoint = activeMasternodeOutpoint e,
                                           dstx_vchSig = [], sigTime = GetAdjustedTime e\<rparr>
                            in AddDSTX e (dstxNew\<lparr>dstx_vchSig := SignDSTX e dstxNew\<rparr>) s2
                       else s2);
                 s4 = emit (RelayInvDSTX hashTx) s3;
                 s5 = RelayCompletedTransaction e MSG_SUCCESS s4;
                 s6 = ChargeRandomFees e s5
             in SetNull e s6)"


definition IsSignaturesComplete :: "CPrivateSendServer \<Rightarrow> bool" where
  "IsSignaturesComplete s =
     (\<forall>entry \<in> set (vecEntries s). \<forall>txdsin \<in> set (vecTxDSIn entry). fHasSig txdsin)"

definition CheckPool :: "env \<Rightarrow> CPrivateSendServer \<Rightarrow> CPrivateSendServer" where
  "CheckPool e s =
     (if \<not> fMasternodeMode e then s
      else if nState s = POOL_STATE_ACCEPTING_ENTRIES \<and>
              GetEntriesCount s = length (vecSessionCollaterals s)
      then CreateFinalTransaction e s
      else if nState s = POOL_STATE_ACCEPTING_ENTRIES \<and> HasTimedOut e s \<and>
              int (GetEntriesCount s) \<ge> GetMinPoolParticipants e
      then CreateFinalTransaction e (ChargeFees e s)
      else if nState s = POOL_STATE_SIGNING \<and> IsSignaturesComplete s
      then CommitFinalTransaction e s
      else s)"

definition CheckTimeout :: "env \<Rightarrow> CPrivateSendServer \<Rightarrow> CPrivateSendServer" where
  "CheckTimeout e s =
     (if \<not> fMasternodeMode e then s
      else let s1 = CheckQueue e s
           in if \<not> HasTimedOut e s1 then s1 else SetNull e (ChargeFees e s1))"

definition CheckForCompleteQueue :: "env \<Rightarrow> CPrivateSendServer \<Rightarrow> CPrivateSendServer" where
  "CheckForCompleteQueue e s =
     (if \<not> fMasternodeMode e then s
      else if nState s = POOL_STATE_QUEUE \<and> IsSessionReady e s
      then let s1 = SetState e POOL_STATE_ACCEPTING_ENTRIES s;
               dsq = \<lparr>nDenom = nSessionDenom s1, masternodeOutpoint = activeMasternodeOutpoint e,
                      nTime = GetAdjustedTime e, fReady = True, vchSig = [], fTried = False\<rparr>
           in emit (RelayQueue (dsq\<lparr>vchSig := SignQueue e dsq\<rparr>)) s1
      else s)"


section \<open>Entries and signatures\<close>

text \<open>
  The search of \<^verbatim>\<open>IsInputScriptSigValid\<close>: walking the inputs of all entries in
  admission order with a running index, remember the index and the
  \<^verbatim>\<open>prevPubKey\<close> of the last input whose prevout is the one looked for.
\<close>

fun find_txin ::
  "COutPoint \<Rightarrow> CTxDSIn list \<Rightarrow> nat \<Rightarrow> (nat \<times> CScript) option \<Rightarrow> (nat \<times> CScript) option" where
  "find_txin p [] i found = found"
| "find_txin p (txdsin # rest) i found =
     find_txin p rest (i + 1) (if prevout txdsin = p then Some (i, prevPubKey txdsin) else found)"

text \<open>The transaction that \<^verbatim>\<open>IsInputScriptSigValid\<close> rebuilds from the entries.\<close>

definition rebuilt_tx :: "CPrivateSendServer \<Rightarrow> CMutableTransaction" where
  "rebuilt_tx s =
     \<lparr>vin = concat (map (\<lambda>entry. map CTxIn.truncate (vecTxDSIn entry)) (vecEntries s)),
      vout = concat (map vecTxOut (vecEntries s))\<rparr>"

definition IsInputScriptSigValid :: "env \<Rightarrow> CTxIn \<Rightarrow> CPrivateSendServer \<Rightarrow> bool" where
  "IsInputScriptSigValid e txin s =
     (let txNew = rebuilt_tx s
      in case find_txin (prevout txin) (concat (map vecTxDSIn (vecEntries s))) 0 None of
           Some (nTxInIndex, sigPubKey) \<Rightarrow>
             VerifyScript e (scriptSig txin) sigPubKey
               (txNew\<lparr>vin := (vin txNew)[nTxInIndex := (vin txNew ! nTxInIndex)\<lparr>scriptSig := scriptSig txin\<rparr>]\<rparr>)
               nTxInIndex
         | None \<Rightarrow> False)"

definition AddEntry ::
  "env \<Rightarrow> CPrivateSendEntry \<Rightarrow> PoolMessage \<Rightarrow> CPrivateSendServer
     \<Rightarrow> bool \<times> PoolMessage \<times> CPrivateSendServer" where
  "AddEntry e entry nMessageID s =
     (if \<not> fMasternodeMode e then (False, nMessageID, s)
      else if GetEntriesCount s \<ge> length (vecSessionCollaterals s)
      then (False, ERR_ENTRIES_FULL, s)
      else if \<not> IsCollateralValid e (txCollateral entry)
      then (False, ERR_INVALID_COLLATERAL, s)
      else if length (vecTxDSIn entry) > PRIVATESEND_ENTRY_MAX_SIZE
      then (False, ERR_MAXIMUM, ConsumeCollateral e (txCollateral entry) s)
      else if \<exists>txin \<in> set (vecTxDSIn entry). \<exists>other \<in> set (vecEntries s).
                \<exists>txdsin \<in> set (vecTxDSIn other). prevout txdsin = prevout txin
      then (False, ERR_ALREADY_HAVE, s)
      else
        let (fOk, nMessageID', fConsumeCollateral) =
              IsValidInOuts e (nSessionDenom s) (map CTxIn.truncate (vecTxDSIn entry))
                (vecTxOut entry) nMessageID
        in if \<not> fOk
           then (False, nMessageID',
                 if fConsumeCollateral then ConsumeCollateral e (txCollateral entry) s else s)
           else (True, MSG_ENTRIES_ADDED, s\<lparr>vecEntries := vecEntries s @ [entry]\<rparr>))"

text \<open>
  Modelled from the spec: \<^verbatim>\<open>CPrivateSendEntry::AddScriptSig\<close> is declared in
  \<^verbatim>\<open>privatesend.h\<close> but its body is outside \<^verbatim>\<open>src/\<close>.  It finds an input with
  matching outpoint and sequence, sets its signature script and returns true; it returns
  false if that input is already signed or there is no match.
\<close>

fun Entry_AddScriptSig_ins :: "CTxIn \<Rightarrow> CTxDSIn list \<Rightarrow> CTxDSIn list option" where
  "Entry_AddScriptSig_ins txin [] = None"
| "Entry_AddScriptSig_ins txin (txdsin # rest) =
     (if prevout txdsin = prevout txin \<and> nSequence txdsin = nSequence txin
      then (if fHasSig txdsin then None
            else Some (txdsin\<lparr>scriptSig := scriptSig txin, fHasSig := True\<rparr> # rest))
      else map_option ((#) txdsin) (Entry_AddScriptSig_ins txin rest))"

definition Entry_AddScriptSig :: "CTxIn \<Rightarrow> CPrivateSendEntry \<Rightarrow> CPrivateSendEntry option" where
  "Entry_AddScriptSig txin entry =
     map_option (\<lambda>ins. entry\<lparr>vecTxDSIn := ins\<rparr>) (Entry_AddScriptSig_ins txin (vecTxDSIn entry))"

text \<open>The last loop of \<^verbatim>\<open>AddScriptSig\<close>: the first entry that takes the signature.\<close>

fun AddScriptSig_entries :: "CTxIn \<Rightarrow> CPrivateSendEntry list \<Rightarrow> CPrivateSendEntry list option" where
  "AddScriptSig_entries txinNew [] = None"
| "AddScriptSig_entries txinNew (entry # rest) =
     (case Entry_AddScriptSig txinNew entry of
        Some entry' \<Rightarrow> Some (entry' # rest)
      | None \<Rightarrow> map_option ((#) entry) (AddScriptSig_entries txinNew rest))"

definition AddScriptSig :: "env \<Rightarrow> CTxIn \<Rightarrow> CPrivateSendServer \<Rightarrow> bool \<times> CPrivateSendServer" where
  "AddScriptSig e txinNew s =
     (if \<exists>entry \<in> set (vecEntries s). \<exists>txdsin \<in> set (vecTxDSIn entry).
            scriptSig txdsin = scriptSig txinNew
      then (False, s)
      else if \<not> IsInputScriptSigValid e txinNew s then (False, s)
      else
        let s1 = s\<lparr>finalMutableTransaction := (finalMutableTransaction s)
                     \<lparr>vin := map (\<lambda>txin. if prevout txin = prevout txinNew \<and>
                                             nSequence txin = nSequence txinNew
                                          then txin\<lparr>scriptSig := scriptSig txinNew\<rparr> else txin)
                                  (vin (finalMutableTransaction s))\<rparr>\<rparr>
        in case AddScriptSig_entries txinNew (vecEntries s1) of
             Some entries' \<Rightarrow> (True, s1\<lparr>vecEntries := entries'\<rparr>)
           | None \<Rightarrow> (False, s1))"

section \<open>Joining a session\<close>

definition IsAcceptableDSA :: "env \<Rightarrow> CPrivateSendAccept \<Rightarrow> PoolMessage \<Rightarrow> bool \<times> PoolMessage" where
  "IsAcceptableDSA e dsa nMessageID =
     (if \<not> fMasternodeMode e then (False, nMessageID)
      else if \<not> IsValidDenomination e (dsa_nDenom dsa) then (False, ERR_DENOM)
      else if \<not> fUnitTest e \<and> \<not> IsCollateralValid e (dsa_txCollateral dsa)
      then (False, ERR_INVALID_COLLATERAL)
      else (True, nMessageID))"

definition CreateNewSession ::
  "env \<Rightarrow> CPrivateSendAccept \<Rightarrow> PoolMessage \<Rightarrow> CPrivateSendServer
     \<Rightarrow> bool \<times> PoolMessage \<times> CPrivateSendServer" where
  "CreateNewSession e dsa nMessageID s =
     (if \<not> fMasternodeMode e \<or> nSessionID s \<noteq> 0 then (False, nMessageID, s)
      else if nState s \<noteq> POOL_STATE_IDLE then (False, ERR_MODE, s)
      else if \<not> fst (IsAcceptableDSA e dsa nMessageID)
      then (False, snd (IsAcceptableDSA e dsa nMessageID), s)
      else
        let (r, s1) = GetRandInt e 999999 s;
            s2 = s1\<lparr>nSessionID := int r + 1, nSessionDenom := dsa_nDenom dsa\<rparr>;
            s3 = SetState e POOL_STATE_QUEUE s2;
            s4 = (if \<not> fUnitTest e
                  then let dsq = \<lparr>nDenom = nSessionDenom s3,
                                  masternodeOutpoint = activeMasternodeOutpoint e,
                                  nTime = GetAdjustedTime e, fReady = False, vchSig = [],
                                  fTried = False\<rparr>;
                           dsq = dsq\<lparr>vchSig := SignQueue e dsq\<rparr>;
                           s' = emit (RelayQueue dsq) s3
                       in s'\<lparr>vecPrivateSendQueue := vecPrivateSendQueue s' @ [dsq]\<rparr>
                  else s3)
        in (True, MSG_NOERR,
            s4\<lparr>vecSessionCollaterals := vecSessionCollaterals s4 @ [dsa_txCollateral dsa]\<rparr>))"

definition AddUserToExistingSession ::
  "env \<Rightarrow> CPrivateSendAccept \<Rightarrow> PoolMessage \<Rightarrow> CPrivateSendServer
     \<Rightarrow> bool \<times> PoolMessage \<times> CPrivateSendServer" where
  "AddUserToExistingSession e dsa nMessageID s =
     (if \<not> fMasternodeMode e \<or> nSessionID s = 0 \<or> IsSessionReady e s then (False, nMessageID, s)
      else if \<not> fst (IsAcceptableDSA e dsa nMessageID)
      then (False, snd (IsAcceptableDSA e dsa nMessageID), s)
      else if nState s \<noteq> POOL_STATE_QUEUE then (False, ERR_MODE, s)
      else if dsa_nDenom dsa \<noteq> nSessionDenom s then (False, ERR_DENOM, s)
      else (True, MSG_NOERR,
            s\<lparr>vecSessionCollaterals := vecSessionCollaterals s @ [dsa_txCollateral dsa]\<rparr>))"


section \<open>The message dispatcher and the maintenance tick\<close>

datatype message =
    DSACCEPT CPrivateSendAccept
  | DSQUEUE CPrivateSendQueue
  | DSVIN CPrivateSendEntry
  | DSSIGNFINALTX "CTxIn list"
  | OTHER

text \<open>
  In both threshold tests \<^verbatim>\<open>nLastDsq\<close> and \<^verbatim>\<open>GetDsqCount()\<close> are \<^verbatim>\<open>int64_t\<close> and
  \<^verbatim>\<open>GetValidMNsCount()\<close> is \<^verbatim>\<open>size_t\<close>, so the sum is formed in unsigned 64-bit
  arithmetic.  The \<^verbatim>\<open>DSACCEPT\<close> handler compares it as it is, which converts the other
  side to unsigned too; the \<^verbatim>\<open>DSQUEUE\<close> handler first stores it in an \<^verbatim>\<open>int\<close> and then
  compares signed.
\<close>

definition Process_DSACCEPT :: "env \<Rightarrow> CNode \<Rightarrow> CPrivateSendAccept \<Rightarrow> CPrivateSendServer \<Rightarrow> CPrivateSendServer" where
  "Process_DSACCEPT e pfrom dsa s =
     (if nVersion pfrom < MIN_PRIVATESEND_PEER_PROTO_VERSION
      then PushStatus (node_addr pfrom) STATUS_REJECTED ERR_VERSION (emit (MsgReject (node_addr pfrom)) s)
      else if IsSessionReady e s
      then PushStatus (node_addr pfrom) STATUS_REJECTED ERR_QUEUE_FULL s
      else if \<not> GetValidMNByCollateral e (activeMasternodeOutpoint e)
      then PushStatus (node_addr pfrom) STATUS_REJECTED ERR_MN_LIST s
      else if vecSessionCollaterals s = [] \<and> \<not> lockRecv e then s
      else if vecSessionCollaterals s = [] \<and>
              (\<exists>q \<in> set (vecPrivateSendQueue s). masternodeOutpoint q = activeMasternodeOutpoint e)
      then PushStatus (node_addr pfrom) STATUS_REJECTED ERR_RECENT s
      else if vecSessionCollaterals s = [] \<and> GetLastDsq e (activeMasternodeOutpoint e) \<noteq> 0 \<and>
              uint64_of (uint64_of (GetLastDsq e (activeMasternodeOutpoint e)) +
                         int (GetValidMNsCount e div 5)) > uint64_of (GetDsqCount e)
      then PushStatus (node_addr pfrom) STATUS_REJECTED ERR_RECENT s
      else
        let (fResult, nMessageID, s1) =
              (if nSessionID s = 0 then CreateNewSession e dsa MSG_NOERR s
               else AddUserToExistingSession e dsa MSG_NOERR s)
        in if fResult then PushStatus (node_addr pfrom) STATUS_ACCEPTED nMessageID s1
           else PushStatus (node_addr pfrom) STATUS_REJECTED nMessageID s1)"

definition Process_DSQUEUE :: "env \<Rightarrow> CNode \<Rightarrow> CPrivateSendQueue \<Rightarrow> CPrivateSendServer \<Rightarrow> CPrivateSendServer" where
  "Process_DSQUEUE e pfrom dsq s =
     (if nVersion pfrom < MIN_PRIVATESEND_PEER_PROTO_VERSION
      then emit (MsgReject (node_addr pfrom)) s
      else if \<not> lockRecv e then s
      else if \<exists>q \<in> set (vecPrivateSendQueue s).
                queue_eq q dsq \<or> (fReady q = fReady dsq \<and> masternodeOutpoint q = masternodeOutpoint dsq)
      then s
      else if IsTimeOutOfBounds e dsq then s
      else if \<not> GetValidMNByCollateral e (masternodeOutpoint dsq) then s
      else if \<not> CheckSignature e dsq then emit (Misbehaving (node_addr pfrom) 10) s
      else if \<not> fReady dsq
      then (let nLastDsq = GetLastDsq e (masternodeOutpoint dsq);
                nThreshold = int32_wrap (uint64_of (uint64_of nLastDsq + int (GetValidMNsCount e div 5)))
            in if nLastDsq \<noteq> 0 \<and> nThreshold > GetDsqCount e then s
               else let s1 = emit (AllowMixing (masternodeOutpoint dsq)) s
                    in if \<not> lockRecv2 e then s1
                       else emit (RelayQueue dsq)
                              (s1\<lparr>vecPrivateSendQueue := vecPrivateSendQueue s1 @ [dsq]\<rparr>))
      else s)"

definition Process_DSVIN :: "env \<Rightarrow> CNode \<Rightarrow> CPrivateSendEntry \<Rightarrow> CPrivateSendServer \<Rightarrow> CPrivateSendServer" where
  "Process_DSVIN e pfrom entry s =
     (if nVersion pfrom < MIN_PRIVATESEND_PEER_PROTO_VERSION
      then PushStatus (node_addr pfrom) STATUS_REJECTED ERR_VERSION (emit (MsgReject (node_addr pfrom)) s)
      else if \<not> IsSessionReady e s
      then PushStatus (node_addr pfrom) STATUS_REJECTED ERR_SESSION s
      else
        let (fOk, nMessageID, s1) = AddEntry e (entry\<lparr>addr := node_addr pfrom\<rparr>) MSG_NOERR s
        in if fOk
           then RelayStatus e STATUS_ACCEPTED MSG_NOERR
                  (CheckPool e (PushStatus (node_addr pfrom) STATUS_ACCEPTED nMessageID s1))
           else PushStatus (node_addr pfrom) STATUS_REJECTED nMessageID s1)"

fun Process_DSSIGNFINALTX_loop :: "env \<Rightarrow> CTxIn list \<Rightarrow> CPrivateSendServer \<Rightarrow> CPrivateSendServer" where
  "Process_DSSIGNFINALTX_loop e [] s = CheckPool e s"
| "Process_DSSIGNFINALTX_loop e (txin # rest) s =
     (if \<not> fst (AddScriptSig e txin s)
      then RelayStatus e STATUS_REJECTED MSG_NOERR (snd (AddScriptSig e txin s))
      else Process_DSSIGNFINALTX_loop e rest (snd (AddScriptSig e txin s)))"

definition Process_DSSIGNFINALTX :: "env \<Rightarrow> CNode \<Rightarrow> CTxIn list \<Rightarrow> CPrivateSendServer \<Rightarrow> CPrivateSendServer" where
  "Process_DSSIGNFINALTX e pfrom vecTxIn s =
     (if nVersion pfrom < MIN_PRIVATESEND_PEER_PROTO_VERSION
      then emit (MsgReject (node_addr pfrom)) s
      else Process_DSSIGNFINALTX_loop e vecTxIn s)"

fun ProcessMessage :: "env \<Rightarrow> CNode \<Rightarrow> message \<Rightarrow> CPrivateSendServer \<Rightarrow> CPrivateSendServer" where
  "ProcessMessage e pfrom strCommand s =
     (if \<not> fMasternodeMode e then s
      else if fLiteMode e then s
      else if \<not> IsBlockchainSynced e then s
      else case strCommand of
             DSACCEPT dsa \<Rightarrow> Process_DSACCEPT e pfrom dsa s
           | DSQUEUE dsq \<Rightarrow> Process_DSQUEUE e pfrom dsq s
           | DSVIN entry \<Rightarrow> Process_DSVIN e pfrom entry s
           | DSSIGNFINALTX vecTxIn \<Rightarrow> Process_DSSIGNFINALTX e pfrom vecTxIn s
           | OTHER \<Rightarrow> s)"

definition DoMaintenance :: "env \<Rightarrow> CPrivateSendServer \<Rightarrow> CPrivateSendServer" where
  "DoMaintenance e s =
     (if fLiteMode e then s
      else if \<not> fMasternodeMode e then s
      else if \<not> IsBlockchainSynced e \<or> ShutdownRequested e then s
      else CheckTimeout e (CheckPool e (CheckForCompleteQueue e s)))"

text \<open>
  The server object right after construction (\<^verbatim>\<open>SetNull\<close> in the constructor), and the
  states it can be in afterwards: the dispatcher and the tick are its only entry points,
  each under whatever environment holds at that moment.
\<close>

definition initial_server :: "int \<Rightarrow> CPrivateSendServer" where
  "initial_server t =
     \<lparr>vecSessionCollaterals = [], vecPrivateSendQueue = [], vecEntries = [],
      nState = POOL_STATE_IDLE, nTimeLastSuccessfulStep = t, nSessionID = 0, nSessionDenom = 0,
      finalMutableTransaction = \<lparr>vin = [], vout = []\<rparr>, mapDSTX = Map.empty, sent = [],
      nRand = 0\<rparr>"

inductive reachable :: "CPrivateSendServer \<Rightarrow> bool" where
  reach_init: "reachable (initial_server t)"
| reach_msg: "reachable s \<Longrightarrow> reachable (ProcessMessage e pfrom m s)"
| reach_tick: "reachable s \<Longrightarrow> reachable (DoMaintenance e s)"


section \<open>Concrete scenarios\<close>

text \<open>
  A synced masternode with a pool of at most three participants, on which every external
  check passes, every peer is connected, every lock is free and every random draw is 0.
\<close>

definition scenario_env :: env where
  "scenario_env =
     \<lparr>fMasternodeMode = True, fLiteMode = False, fUnitTest = False, IsBlockchainSynced = True,
      GetTime = 1000, GetAdjustedTime = 1000,
      GetMaxPoolParticipants = 3, GetMinPoolParticipants = 2,
      IsValidDenomination = (\<lambda>d. True), IsCollateralValid = (\<lambda>c. True),
      IsValidInOuts = (\<lambda>d ins outs m. (True, MSG_NOERR, False)),
      VerifyScript = (\<lambda>sig pk t i. True),
      AcceptToMemoryPool = (\<lambda>t. True),
      GetHash = (\<lambda>t. of_nat (length (vin t))),
      connected = (\<lambda>a. True), lockMain = True, lockRecv = True,
      RandStream = (\<lambda>i. 0),
      activeMasternodeOutpoint = \<lparr>hash = 77, nIndex = 0\<rparr>,
      SignQueue = (\<lambda>q. []), SignDSTX = (\<lambda>d. []),
      GetValidMNByCollateral = (\<lambda>p. True), CheckSignature = (\<lambda>q. True),
      GetLastDsq = (\<lambda>p. 0), GetValidMNsCount = 50, GetDsqCount = 0,
      lockRecv2 = True, ShutdownRequested = False\<rparr>"

text \<open>Three collateral transactions, told apart by their single input.\<close>

definition collateral_of :: "nat \<Rightarrow> CTransaction" where
  "collateral_of k =
     \<lparr>vin = [\<lparr>prevout = \<lparr>hash = of_nat k, nIndex = 9\<rparr>, scriptSig = [], nSequence = 0\<rparr>],
      vout = []\<rparr>"

text \<open>A mixing input spending output \<open>i\<close> of transaction \<open>h\<close>, not yet signed.\<close>

definition dsin :: "nat \<Rightarrow> nat \<Rightarrow> CTxDSIn" where
  "dsin h i =
     \<lparr>prevout = \<lparr>hash = of_nat h, nIndex = of_nat i\<rparr>, scriptSig = [], nSequence = 0,
      prevPubKey = [], fHasSig = False, nSentTimes = 0\<rparr>"

definition entry_of :: "nat \<Rightarrow> CTxDSIn list \<Rightarrow> CPrivateSendEntry" where
  "entry_of k ins =
     \<lparr>vecTxDSIn = ins, vecTxOut = [], txCollateral = collateral_of k, addr = k\<rparr>"

definition peer :: "nat \<Rightarrow> CNode" where
  "peer k = \<lparr>node_addr = k, nVersion = 70206\<rparr>"

definition future_queue :: CPrivateSendQueue where
  "future_queue =
     \<lparr>nDenom = 1, masternodeOutpoint = \<lparr>hash = 5, nIndex = 0\<rparr>, nTime = 1031,
      fReady = False, vchSig = [], fTried = False\<rparr>"

text \<open>
  A session that accepts entries: three participants have pledged collateral, the first
  has submitted an entry with one input.
\<close>

definition accepting_state :: CPrivateSendServer where
  "accepting_state =
     \<lparr>vecSessionCollaterals = [collateral_of 1, collateral_of 2, collateral_of 3],
      vecPrivateSendQueue = [], vecEntries = [entry_of 1 [dsin 1 0]],
      nState = POOL_STATE_ACCEPTING_ENTRIES, nTimeLastSuccessfulStep = 1000,
      nSessionID = 4711, nSessionDenom = 1,
      finalMutableTransaction = \<lparr>vin = [], vout = []\<rparr>, mapDSTX = Map.empty, sent = [],
      nRand = 0\<rparr>"


text \<open>An environment whose first random draw is 50 and whose later draws are 0.\<close>

definition first_draw_50_env :: env where
  "first_draw_50_env = scenario_env\<lparr>RandStream := (\<lambda>i. if i = 0 then 50 else 0)\<rparr>"

text \<open>An environment in which no peer is connected.\<close>

definition offline_env :: env where
  "offline_env = scenario_env\<lparr>connected := (\<lambda>a. False)\<rparr>"

text \<open>
  Two entries as in the spec's canonical-ordering scenario: A offers the inputs (h2, 0) and
  (h1, 5) and an output of 100000000 to script [1]; B offers the input (h1, 1) and an
  output of the same amount to script [2].
\<close>

definition two_entries_state :: CPrivateSendServer where
  "two_entries_state =
     accepting_state
       \<lparr>vecSessionCollaterals := [collateral_of 1, collateral_of 2],
        vecEntries :=
          [(entry_of 1 [dsin 2 0, dsin 1 5])\<lparr>vecTxOut := [\<lparr>nValue = 100000000, scriptPubKey = [1]\<rparr>]\<rparr>,
           (entry_of 2 [dsin 1 1])\<lparr>vecTxOut := [\<lparr>nValue = 100000000, scriptPubKey = [2]\<rparr>]\<rparr>]\<rparr>"



text \<open>
  A run of the server from construction at time 1000: three participants join with
  \<^verbatim>\<open>dsa\<close> (the pool is then full, still in Queue), the maintenance tick opens the pool
  for entries, and the first participant submits an entry.
\<close>

definition dsa_of :: "nat \<Rightarrow> CPrivateSendAccept" where
  "dsa_of k = \<lparr>dsa_nDenom = 1, dsa_txCollateral = collateral_of k\<rparr>"

definition queue_state_1 :: CPrivateSendServer where
  "queue_state_1 = ProcessMessage scenario_env (peer 1) (DSACCEPT (dsa_of 1)) (initial_server 1000)"

definition queue_state_2 :: CPrivateSendServer where
  "queue_state_2 = ProcessMessage scenario_env (peer 2) (DSACCEPT (dsa_of 2)) queue_state_1"

definition queue_full_state :: CPrivateSendServer where
  "queue_full_state = ProcessMessage scenario_env (peer 3) (DSACCEPT (dsa_of 3)) queue_state_2"

definition ready_state :: CPrivateSendServer where
  "ready_state = DoMaintenance scenario_env queue_full_state"

definition one_entry_state :: CPrivateSendServer where
  "one_entry_state =
     ProcessMessage scenario_env (peer 1) (DSVIN (entry_of 1 [dsin 2 0, dsin 1 5])) ready_state"

text \<open>
  The run continues: the second and third participant submit their entries; with the
  third the pool is complete, the final transaction is assembled and signing starts.
\<close>

definition two_entry_run_state :: CPrivateSendServer where
  "two_entry_run_state =
     ProcessMessage scenario_env (peer 2) (DSVIN (entry_of 2 [dsin 1 1])) one_entry_state"

definition signing_run_state :: CPrivateSendServer where
  "signing_run_state =
     ProcessMessage scenario_env (peer 3) (DSVIN (entry_of 3 [dsin 3 0])) two_entry_run_state"

text \<open>
  An entry of ten inputs, the first of which is already in the pool; a signature for the
  admitted input (h2, 0); an environment whose script check accepts exactly the signature
  that names the index it is checked at; and the signature for the input (h1, 1) that
  names index 2.
\<close>

definition big_entry :: CPrivateSendEntry where
  "big_entry = entry_of 2 (dsin 2 0 # map (dsin 5) [0..<9])"

definition sig_for_2_0 :: CTxIn where
  "sig_for_2_0 = \<lparr>prevout = \<lparr>hash = 2, nIndex = 0\<rparr>, scriptSig = [7], nSequence = 0\<rparr>"

definition index_env :: env where
  "index_env = scenario_env\<lparr>VerifyScript := (\<lambda>sig pk t i. sig = [of_nat i])\<rparr>"

definition sig_for_1_1 :: CTxIn where
  "sig_for_1_1 = \<lparr>prevout = \<lparr>hash = 1, nIndex = 1\<rparr>, scriptSig = [2], nSequence = 0\<rparr>"

text \<open>
  The signature for the input (h1, 1) that names index 0, the place of that input in the
  sorted final transaction of the run.
\<close>

definition sig_final_1_1 :: CTxIn where
  "sig_final_1_1 = \<lparr>prevout = \<lparr>hash = 1, nIndex = 1\<rparr>, scriptSig = [0], nSequence = 0\<rparr>"

section \<open>Vocabulary for the statements\<close>

text \<open>The status updates that one pass of \<^verbatim>\<open>RelayStatus\<close> pushes to the connected participants.\<close>

definition status_msgs ::
  "env \<Rightarrow> PoolStatusUpdate \<Rightarrow> PoolMessage \<Rightarrow> CPrivateSendServer \<Rightarrow> event list" where
  "status_msgs e u m s =
     map (\<lambda>entry. MsgStatusUpdate (addr entry) (nSessionID s) (nState s) 0 u m)
         (filter (\<lambda>entry. connected e (addr entry)) (vecEntries s))"

fun is_status_update :: "event \<Rightarrow> bool" where
  "is_status_update (MsgStatusUpdate a i st k u m) = True"
| "is_status_update ev = False"


text \<open>What \<^verbatim>\<open>ConsumeCollateral\<close> does with one collateral.\<close>

definition consume_events :: "env \<Rightarrow> CTransaction \<Rightarrow> event list" where
  "consume_events e c =
     MempoolSubmit c # (if AcceptToMemoryPool e c then [RelayTransaction c] else [])"

text \<open>
  When \<^verbatim>\<open>ChargeFees\<close> goes through to a charge: the first draw is at most 33, there is
  an offender, the offenders are fewer than the collaterals, and if they are at least the
  collaterals minus one the second draw is at most 33 as well.
\<close>

definition charged :: "env \<Rightarrow> CPrivateSendServer \<Rightarrow> bool" where
  "charged e s \<longleftrightarrow>
     RandStream e (nRand s) mod 100 \<le> 33 \<and> collect_offenders s \<noteq> [] \<and>
     length (collect_offenders s) < length (vecSessionCollaterals s) \<and>
     (length (collect_offenders s) \<ge> size_t_minus_one (length (vecSessionCollaterals s))
        \<longrightarrow> RandStream e (nRand s + 1) mod 100 \<le> 33)"

text \<open>Ascending order on (prev_hash, prev_index), and on (amount, script).\<close>

definition input_le :: "CTxIn \<Rightarrow> CTxIn \<Rightarrow> bool" where
  "input_le a b \<longleftrightarrow>
     hash (prevout a) < hash (prevout b) \<or>
     (hash (prevout a) = hash (prevout b) \<and> nIndex (prevout a) \<le> nIndex (prevout b))"

definition output_le :: "CTxOut \<Rightarrow> CTxOut \<Rightarrow> bool" where
  "output_le a b \<longleftrightarrow>
     nValue a < nValue b \<or> (nValue a = nValue b \<and> scriptPubKey a \<le> scriptPubKey b)"

text \<open>All inputs, and all outputs, of the admitted entries in admission order.\<close>

definition entries_inputs :: "CPrivateSendServer \<Rightarrow> CTxIn list" where
  "entries_inputs s = concat (map (\<lambda>entry. map CTxIn.truncate (vecTxDSIn entry)) (vecEntries s))"

definition entries_outputs :: "CPrivateSendServer \<Rightarrow> CTxOut list" where
  "entries_outputs s = concat (map vecTxOut (vecEntries s))"

text \<open>
  \<open>session_kept e s s'\<close>: from \<open>s\<close> to \<open>s'\<close> nothing happened to the session except
  outgoing traffic and random draws, or the session was reset on top of that.
\<close>

definition session_kept :: "env \<Rightarrow> CPrivateSendServer \<Rightarrow> CPrivateSendServer \<Rightarrow> bool" where
  "session_kept e s s' \<longleftrightarrow>
     (\<exists>tr k. s' = s\<lparr>sent := tr, nRand := k\<rparr>) \<or>
     (\<exists>tr k. s' = SetNull e (s\<lparr>sent := tr, nRand := k\<rparr>))"

text \<open>The outpoints an entry spends, and what identifies an input for signing.\<close>

definition entry_prevouts :: "CPrivateSendEntry \<Rightarrow> COutPoint set" where
  "entry_prevouts entry = prevout ` set (vecTxDSIn entry)"

definition in_key :: "CTxIn \<Rightarrow> COutPoint \<times> 32 word" where
  "in_key txin = (prevout txin, nSequence txin)"

text \<open>
  The inputs of the final transaction are those of the entries, up to order and signature
  scripts.
\<close>

definition final_matches :: "CPrivateSendServer \<Rightarrow> bool" where
  "final_matches s \<longleftrightarrow>
     set (map in_key (vin (finalMutableTransaction s))) = set (map in_key (entries_inputs s))"

text \<open>
  The session invariant: no more entries than collaterals; the entries spend pairwise
  disjoint outpoints; an idle session holds nothing; a signing session's final transaction
  matches its entries; the server is never in Error or Success.
\<close>

definition session_inv :: "CPrivateSendServer \<Rightarrow> bool" where
  "session_inv s \<longleftrightarrow>
     length (vecEntries s) \<le> length (vecSessionCollaterals s) \<and>
     sorted_wrt (\<lambda>A B. A \<inter> B = {}) (map entry_prevouts (vecEntries s)) \<and>
     (nState s = POOL_STATE_IDLE \<longrightarrow> vecEntries s = [] \<and> vecSessionCollaterals s = []) \<and>
     (nState s = POOL_STATE_SIGNING \<longrightarrow> final_matches s) \<and>
     nState s \<noteq> POOL_STATE_ERROR \<and> nState s \<noteq> POOL_STATE_SUCCESS"

text \<open>
  All mixing inputs of the admitted entries in admission order, and the position of the
  last one among them that spends a given outpoint.
\<close>

definition entries_dsins :: "CPrivateSendServer \<Rightarrow> CTxDSIn list" where
  "entries_dsins s = concat (map vecTxDSIn (vecEntries s))"

definition last_match :: "COutPoint \<Rightarrow> CTxDSIn list \<Rightarrow> nat \<Rightarrow> bool" where
  "last_match p xs i \<longleftrightarrow>
     i < length xs \<and> prevout (xs ! i) = p \<and>
     (\<forall>j. i < j \<and> j < length xs \<longrightarrow> prevout (xs ! j) \<noteq> p)"

section \<open>Queue advertisements out of bounds\<close>

lemma int64_wrap_id: "- (2 ^ 63) \<le> x \<Longrightarrow> x < 2 ^ 63 \<Longrightarrow> int64_wrap x = x"
  unfolding int64_wrap_def by (simp add: mod_pos_pos_trivial)

text \<open>
  The expiry test of the header, with which the deduplication buffer is purged, looks
  backwards only: barring overflow of the 64-bit subtraction it holds exactly when the
  current time exceeds the timestamp by more than \<^verbatim>\<open>PRIVATESEND_QUEUE_TIMEOUT\<close>.
\<close>

lemma IsExpired_one_sided:
  assumes "- (2 ^ 63) \<le> GetTime e - nTime q" and "GetTime e - nTime q < 2 ^ 63"
  shows "IsExpired e q \<longleftrightarrow> GetTime e - nTime q > 30"
  using assms by (simp add: IsExpired_def int64_wrap_id PRIVATESEND_QUEUE_TIMEOUT_def)

text \<open>
  C7.  The staleness check of a queue advertisement, \<^verbatim>\<open>IsTimeOutOfBounds\<close>, is true if and
  only if the absolute difference between the current time and the advertisement's
  timestamp exceeds \<^verbatim>\<open>PRIVATESEND_QUEUE_TIMEOUT\<close> (30 seconds), that is, if and only if the
  timestamp lies more than 30 seconds in the future or more than 30 seconds in the past.
  The \<^verbatim>\<open>DSQUEUE\<close> handler, and with it the message dispatcher, drops either kind coming
  from a peer of a supported version: the server is left exactly as it was, with nothing
  stored, relayed or scored.
\<close>

theorem C7_IsTimeOutOfBounds:
  "(IsTimeOutOfBounds e q \<longleftrightarrow> \<bar>GetAdjustedTime e - nTime q\<bar> > 30) \<and>
   (IsTimeOutOfBounds e q \<longleftrightarrow>
      nTime q - GetAdjustedTime e > 30 \<or> GetAdjustedTime e - nTime q > 30) \<and>
   (nVersion pfrom \<ge> MIN_PRIVATESEND_PEER_PROTO_VERSION \<and> nTime q - GetAdjustedTime e > 30 \<longrightarrow>
      Process_DSQUEUE e pfrom q s = s \<and> ProcessMessage e pfrom (DSQUEUE q) s = s) \<and>
   (nVersion pfrom \<ge> MIN_PRIVATESEND_PEER_PROTO_VERSION \<and> GetAdjustedTime e - nTime q > 30 \<longrightarrow>
      Process_DSQUEUE e pfrom q s = s \<and> ProcessMessage e pfrom (DSQUEUE q) s = s)"
proof -
  have a: "IsTimeOutOfBounds e q \<longleftrightarrow> \<bar>GetAdjustedTime e - nTime q\<bar> > 30"
    by (simp add: IsTimeOutOfBounds_def PRIVATESEND_QUEUE_TIMEOUT_def)
  have b: "IsTimeOutOfBounds e q \<longleftrightarrow>
      nTime q - GetAdjustedTime e > 30 \<or> GetAdjustedTime e - nTime q > 30"
    unfolding a by arith
  have d: "Process_DSQUEUE e pfrom q s = s \<and> ProcessMessage e pfrom (DSQUEUE q) s = s"
    if "nVersion pfrom \<ge> MIN_PRIVATESEND_PEER_PROTO_VERSION" "IsTimeOutOfBounds e q"
  proof -
    from that have "Process_DSQUEUE e pfrom q s = s" by (simp add: Process_DSQUEUE_def)
    thus ?thesis by simp
  qed
  from a b d show ?thesis by blast
qed

text \<open>
  At time 1000 an advertisement stamped 1031 and one stamped 969 are both out of bounds
  and leave the fresh server untouched; one stamped 1030 is within bounds and is stored.
\<close>

theorem C7_IsTimeOutOfBounds_witness:
  "IsTimeOutOfBounds scenario_env future_queue \<and>
   ProcessMessage scenario_env (peer 1) (DSQUEUE future_queue) (initial_server 1000) =
     initial_server 1000 \<and>
   IsTimeOutOfBounds scenario_env (future_queue\<lparr>nTime := 969\<rparr>) \<and>
   ProcessMessage scenario_env (peer 1) (DSQUEUE (future_queue\<lparr>nTime := 969\<rparr>)) (initial_server 1000) =
     initial_server 1000 \<and>
   \<not> IsTimeOutOfBounds scenario_env (future_queue\<lparr>nTime := 1030\<rparr>) \<and>
   vecPrivateSendQueue
     (ProcessMessage scenario_env (peer 1) (DSQUEUE (future_queue\<lparr>nTime := 1030\<rparr>)) (initial_server 1000)) =
     [future_queue\<lparr>nTime := 1030\<rparr>]"
proof -
  have v: "nVersion (peer 1) \<ge> MIN_PRIVATESEND_PEER_PROTO_VERSION"
    by (simp add: peer_def MIN_PRIVATESEND_PEER_PROTO_VERSION_def)
  have f: "nTime future_queue - GetAdjustedTime scenario_env > 30"
    by (simp add: scenario_env_def future_queue_def)
  have p: "GetAdjustedTime scenario_env - nTime (future_queue\<lparr>nTime := 969\<rparr>) > 30"
    by (simp add: scenario_env_def)
  have n: "\<not> \<bar>GetAdjustedTime scenario_env - nTime (future_queue\<lparr>nTime := 1030\<rparr>)\<bar> > 30"
    by (simp add: scenario_env_def)
  from C7_IsTimeOutOfBounds [of scenario_env future_queue "peer 1" "initial_server 1000"] v f
  have 1: "IsTimeOutOfBounds scenario_env future_queue"
          "ProcessMessage scenario_env (peer 1) (DSQUEUE future_queue) (initial_server 1000) =
             initial_server 1000"
    by blast+
  from C7_IsTimeOutOfBounds [of scenario_env "future_queue\<lparr>nTime := 969\<rparr>" "peer 1" "initial_server 1000"] v p
  have 2: "IsTimeOutOfBounds scenario_env (future_queue\<lparr>nTime := 969\<rparr>)"
          "ProcessMessage scenario_env (peer 1) (DSQUEUE (future_queue\<lparr>nTime := 969\<rparr>)) (initial_server 1000) =
             initial_server 1000"
    by blast+
  from C7_IsTimeOutOfBounds [of scenario_env "future_queue\<lparr>nTime := 1030\<rparr>" "peer 1" "initial_server 1000"] n
  have 3: "\<not> IsTimeOutOfBounds scenario_env (future_queue\<lparr>nTime := 1030\<rparr>)"
    by blast
  have 4: "vecPrivateSendQueue
     (ProcessMessage scenario_env (peer 1) (DSQUEUE (future_queue\<lparr>nTime := 1030\<rparr>)) (initial_server 1000)) =
     [future_queue\<lparr>nTime := 1030\<rparr>]"
    by (simp add: Process_DSQUEUE_def IsTimeOutOfBounds_def PRIVATESEND_QUEUE_TIMEOUT_def Let_def
          emit_def scenario_env_def peer_def MIN_PRIVATESEND_PEER_PROTO_VERSION_def
          initial_server_def future_queue_def)
  from 1 2 3 4 show ?thesis by blast
qed

section \<open>Status relay\<close>

lemma fold_PushStatus:
  "fold (\<lambda>entry st. if connected e (addr entry) then PushStatus (addr entry) u m st else st) ens s =
   s\<lparr>sent := sent s @ map (\<lambda>entry. MsgStatusUpdate (addr entry) (nSessionID s) (nState s) 0 u m)
                            (filter (\<lambda>entry. connected e (addr entry)) ens)\<rparr>"
  by (induction ens arbitrary: s) (simp_all add: PushStatus_def emit_def)

lemma RelayStatus_all_connected:
  assumes "\<forall>entry \<in> set (vecEntries s). connected e (addr entry)"
  shows "RelayStatus e u m s = s\<lparr>sent := sent s @ status_msgs e u m s\<rparr>"
  using assms by (simp add: RelayStatus_def fold_PushStatus status_msgs_def Let_def filter_empty_conv)

lemma RelayStatus_some_connected:
  assumes "x \<in> set (vecEntries s)" and "\<not> connected e (addr x)"
      and "y \<in> set (vecEntries s)" and "connected e (addr y)"
  shows "RelayStatus e u m s =
           s\<lparr>sent := sent s @ status_msgs e u m s @ status_msgs e STATUS_REJECTED MSG_NOERR s\<rparr>"
proof -
  let ?d = "filter (\<lambda>entry. \<not> connected e (addr entry)) (vecEntries s)"
  from assms(1,2) have "x \<in> set ?d" by simp
  hence nz: "length ?d \<noteq> 0" by (metis length_0_conv empty_iff empty_set)
  from assms(3,4) have "length ?d < length (vecEntries s)"
    by (intro length_filter_less[of y]) simp_all
  hence ne: "length ?d \<noteq> length (vecEntries s)" by simp
  show ?thesis using nz ne
    by (simp add: RelayStatus_def fold_PushStatus status_msgs_def Let_def)
qed

lemma RelayStatus_none_connected:
  assumes "vecEntries s \<noteq> []" and "\<forall>entry \<in> set (vecEntries s). \<not> connected e (addr entry)"
  shows "RelayStatus e u m s = SetNull e s"
proof -
  from assms(2) have f: "filter (\<lambda>entry. \<not> connected e (addr entry)) (vecEntries s) = vecEntries s"
    by (simp add: filter_id_conv)
  from assms(2) have g: "filter (\<lambda>entry. connected e (addr entry)) (vecEntries s) = []"
    by (simp add: filter_empty_conv)
  show ?thesis using assms(1) f g
    by (simp add: RelayStatus_def fold_PushStatus Let_def)
qed

lemma status_msgs_are_status: "\<forall>ev \<in> set (status_msgs e u m s). is_status_update ev"
  by (simp add: status_msgs_def)

lemma SetNull_fields:
  "nState (SetNull e s) = POOL_STATE_IDLE" "nSessionID (SetNull e s) = 0"
  "vecEntries (SetNull e s) = []" "vecSessionCollaterals (SetNull e s) = []"
  "finalMutableTransaction (SetNull e s) = \<lparr>vin = [], vout = []\<rparr>"
  "sent (SetNull e s) = sent s" "mapDSTX (SetNull e s) = mapDSTX s" "nRand (SetNull e s) = nRand s"
  "vecPrivateSendQueue (SetNull e s) = []"
  by (simp_all add: SetNull_def BaseManager_SetNull_def BaseSession_SetNull_def)


lemma RelayStatus_no_entries: "vecEntries s = [] \<Longrightarrow> RelayStatus e u m s = s"
  by (simp add: RelayStatus_def)

lemma RelayStatus_reachable:
  assumes y: "y \<in> set (vecEntries s)" "connected e (addr y)"
  shows "\<exists>msgs. RelayStatus e u m s = s\<lparr>sent := sent s @ msgs\<rparr> \<and>
              (\<forall>ev \<in> set msgs. is_status_update ev)"
proof (cases "\<forall>entry \<in> set (vecEntries s). connected e (addr entry)")
  case True
  hence "RelayStatus e u m s = s\<lparr>sent := sent s @ status_msgs e u m s\<rparr>"
    by (rule RelayStatus_all_connected)
  thus ?thesis using status_msgs_are_status by blast
next
  case False
  then obtain x where x: "x \<in> set (vecEntries s)" "\<not> connected e (addr x)" by blast
  have "RelayStatus e u m s =
          s\<lparr>sent := sent s @ (status_msgs e u m s @ status_msgs e STATUS_REJECTED MSG_NOERR s)\<rparr>"
    using RelayStatus_some_connected[OF x y] by simp
  moreover have "\<forall>ev \<in> set (status_msgs e u m s @ status_msgs e STATUS_REJECTED MSG_NOERR s).
                   is_status_update ev"
    using status_msgs_are_status by auto
  ultimately show ?thesis by blast
qed

text \<open>
  C10.  During a status relay, if the session has admitted entries and the address of
  every one of them is found disconnected, the session is reset to the null idle state
  (Idle, id 0, no entries, no collaterals, no final transaction) and nothing is handed to
  the mempool or the network, so no collateral is consumed.  If at least one participant
  is still reachable, the relay leaves every session field as it was and only appends
  status updates to the outgoing messages.  (With no admitted entry nobody is found
  disconnected and the relay does nothing.)
\<close>

theorem C10_RelayStatus:
  "(vecEntries s \<noteq> [] \<and> (\<forall>entry \<in> set (vecEntries s). \<not> connected e (addr entry)) \<longrightarrow>
      RelayStatus e u m s = SetNull e s \<and>
      nState (RelayStatus e u m s) = POOL_STATE_IDLE \<and> nSessionID (RelayStatus e u m s) = 0 \<and>
      vecEntries (RelayStatus e u m s) = [] \<and> vecSessionCollaterals (RelayStatus e u m s) = [] \<and>
      finalMutableTransaction (RelayStatus e u m s) = \<lparr>vin = [], vout = []\<rparr> \<and>
      sent (RelayStatus e u m s) = sent s) \<and>
   ((\<exists>entry \<in> set (vecEntries s). connected e (addr entry)) \<longrightarrow>
      (\<exists>msgs. RelayStatus e u m s = s\<lparr>sent := sent s @ msgs\<rparr> \<and>
              (\<forall>ev \<in> set msgs. is_status_update ev))) \<and>
   (vecEntries s = [] \<longrightarrow> RelayStatus e u m s = s)"
proof (intro conjI impI)
  assume "vecEntries s = []"
  thus "RelayStatus e u m s = s" by (rule RelayStatus_no_entries)
next
  assume a: "vecEntries s \<noteq> [] \<and> (\<forall>entry \<in> set (vecEntries s). \<not> connected e (addr entry))"
  hence eq: "RelayStatus e u m s = SetNull e s" by (simp add: RelayStatus_none_connected)
  show "RelayStatus e u m s = SetNull e s" by (rule eq)
  show "nState (RelayStatus e u m s) = POOL_STATE_IDLE" by (simp add: eq SetNull_fields)
  show "nSessionID (RelayStatus e u m s) = 0" by (simp add: eq SetNull_fields)
  show "vecEntries (RelayStatus e u m s) = []" by (simp add: eq SetNull_fields)
  show "vecSessionCollaterals (RelayStatus e u m s) = []" by (simp add: eq SetNull_fields)
  show "finalMutableTransaction (RelayStatus e u m s) = \<lparr>vin = [], vout = []\<rparr>"
    by (simp add: eq SetNull_fields)
  show "sent (RelayStatus e u m s) = sent s" by (simp add: eq SetNull_fields)
next
  assume "\<exists>entry \<in> set (vecEntries s). connected e (addr entry)"
  then obtain y where "y \<in> set (vecEntries s)" "connected e (addr y)" by blast
  thus "\<exists>msgs. RelayStatus e u m s = s\<lparr>sent := sent s @ msgs\<rparr> \<and>
              (\<forall>ev \<in> set msgs. is_status_update ev)"
    by (rule RelayStatus_reachable)
qed

text \<open>
  With the one participant of the accepting session offline the relay resets the session;
  with the participant online it pushes one status update and changes nothing else.
\<close>

theorem C10_RelayStatus_witness:
  "RelayStatus offline_env STATUS_REJECTED MSG_NOERR accepting_state = SetNull offline_env accepting_state \<and>
   nState (RelayStatus offline_env STATUS_REJECTED MSG_NOERR accepting_state) = POOL_STATE_IDLE \<and>
   sent (RelayStatus offline_env STATUS_REJECTED MSG_NOERR accepting_state) = [] \<and>
   RelayStatus scenario_env STATUS_ACCEPTED MSG_NOERR accepting_state =
     accepting_state\<lparr>sent := [MsgStatusUpdate 1 4711 POOL_STATE_ACCEPTING_ENTRIES 0 STATUS_ACCEPTED MSG_NOERR]\<rparr>"
proof -
  have off: "vecEntries accepting_state \<noteq> [] \<and>
             (\<forall>entry \<in> set (vecEntries accepting_state). \<not> connected offline_env (addr entry))"
    by (simp add: accepting_state_def offline_env_def scenario_env_def)
  have on: "\<exists>entry \<in> set (vecEntries accepting_state). connected scenario_env (addr entry)"
    by (simp add: accepting_state_def scenario_env_def)
  have sent0: "sent accepting_state = []" by (simp add: accepting_state_def)
  from C10_RelayStatus [of accepting_state offline_env STATUS_REJECTED MSG_NOERR] off
  have a: "RelayStatus offline_env STATUS_REJECTED MSG_NOERR accepting_state = SetNull offline_env accepting_state"
      and b: "nState (RelayStatus offline_env STATUS_REJECTED MSG_NOERR accepting_state) = POOL_STATE_IDLE"
      and c': "sent (RelayStatus offline_env STATUS_REJECTED MSG_NOERR accepting_state) = sent accepting_state"
    by blast+
  from c' sent0
  have c: "sent (RelayStatus offline_env STATUS_REJECTED MSG_NOERR accepting_state) = []"
    by (simp only:)
  from C10_RelayStatus [of accepting_state scenario_env STATUS_ACCEPTED MSG_NOERR] on
  obtain msgs where
    m: "RelayStatus scenario_env STATUS_ACCEPTED MSG_NOERR accepting_state =
          accepting_state\<lparr>sent := sent accepting_state @ msgs\<rparr>"
    by blast
  have "sent (RelayStatus scenario_env STATUS_ACCEPTED MSG_NOERR accepting_state) =
          [MsgStatusUpdate 1 4711 POOL_STATE_ACCEPTING_ENTRIES 0 STATUS_ACCEPTED MSG_NOERR]"
    by (simp add: RelayStatus_def PushStatus_def emit_def accepting_state_def scenario_env_def
          entry_of_def Let_def)
  with m sent0 have d: "RelayStatus scenario_env STATUS_ACCEPTED MSG_NOERR accepting_state =
     accepting_state\<lparr>sent := [MsgStatusUpdate 1 4711 POOL_STATE_ACCEPTING_ENTRIES 0 STATUS_ACCEPTED MSG_NOERR]\<rparr>"
    by simp
  from a b c d show ?thesis by simp
qed

section \<open>Charging collaterals\<close>

lemma ConsumeCollateral_eq: "ConsumeCollateral e c s = s\<lparr>sent := sent s @ consume_events e c\<rparr>"
  by (simp add: ConsumeCollateral_def consume_events_def emit_def Let_def)

lemma mset_shuffle_loop:
  "\<forall>i \<in> set idxs. i < length xs \<Longrightarrow> mset (shuffle_loop rnd k idxs xs) = mset xs"
proof (induction idxs arbitrary: k xs)
  case Nil
  then show ?case by simp
next
  case (Cons i rest)
  let ?j = "rnd k mod (i + 1)"
  from Cons.prems have i: "i < length xs" by simp
  have "?j < i + 1" by (rule mod_less_divisor) simp
  with i have j: "?j < length xs" by linarith
  let ?ys = "xs[i := xs ! ?j, ?j := xs ! i]"
  have "mset ?ys = mset xs" using mset_swap[OF j i] .
  moreover have "\<forall>i \<in> set rest. i < length ?ys" using Cons.prems by simp
  ultimately show ?case using Cons.IH[of ?ys "k + 1"] by (simp add: Let_def)
qed

lemma random_shuffle_mset: "mset (fst (random_shuffle e xs s)) = mset xs"
  by (simp add: random_shuffle_def mset_shuffle_loop)

lemma random_shuffle_hd: "xs \<noteq> [] \<Longrightarrow> hd (fst (random_shuffle e xs s)) \<in> set xs"
proof -
  assume "xs \<noteq> []"
  have m: "mset (fst (random_shuffle e xs s)) = mset xs" by (rule random_shuffle_mset)
  hence "set (fst (random_shuffle e xs s)) = set xs" by (rule mset_eq_setD)
  moreover from m \<open>xs \<noteq> []\<close> have "fst (random_shuffle e xs s) \<noteq> []" by auto
  ultimately show ?thesis using hd_in_set by blast
qed

lemma collect_offenders_nRand [simp]: "collect_offenders (s\<lparr>nRand := k\<rparr>) = collect_offenders s"
  by (simp add: collect_offenders_def offenders_accepting_def offenders_signing_def)

lemma collect_offenders_state:
  "collect_offenders s \<noteq> [] \<Longrightarrow> nState s = POOL_STATE_ACCEPTING_ENTRIES \<or> nState s = POOL_STATE_SIGNING"
  by (auto simp: collect_offenders_def split: if_splits)

lemma ChargeFees_not_charged:
  assumes "fMasternodeMode e" and "\<not> charged e s"
  shows "\<exists>k. ChargeFees e s = s\<lparr>nRand := k\<rparr>"
  using assms
  by (auto simp: ChargeFees_def charged_def GetRandInt_def Let_def split_def)

lemma ChargeFees_charged:
  assumes "fMasternodeMode e" and "charged e s"
  shows "\<exists>k c. c \<in> set (collect_offenders s) \<and>
           ChargeFees e s = s\<lparr>nRand := k, sent := sent s @ consume_events e c\<rparr>"
proof -
  let ?offs = "collect_offenders s"
  from assms(2) have ne: "?offs \<noteq> []" by (simp add: charged_def)
  hence st: "nState s = POOL_STATE_ACCEPTING_ENTRIES \<or> nState s = POOL_STATE_SIGNING"
    by (rule collect_offenders_state)
  show ?thesis
  proof (cases "length ?offs \<ge> size_t_minus_one (length (vecSessionCollaterals s))")
    case True
    let ?s2 = "s\<lparr>nRand := nRand s + 1 + 1\<rparr>"
    have "ChargeFees e s = ConsumeCollateral e (hd (fst (random_shuffle e ?offs ?s2))) (snd (random_shuffle e ?offs ?s2))"
      using assms True st
      by (auto simp: ChargeFees_def charged_def GetRandInt_def Let_def split_def random_shuffle_def)
    moreover have "hd (fst (random_shuffle e ?offs ?s2)) \<in> set ?offs" using ne by (rule random_shuffle_hd)
    ultimately show ?thesis
      by (auto simp: ConsumeCollateral_eq random_shuffle_def intro!: exI)
  next
    case False
    let ?s2 = "s\<lparr>nRand := nRand s + 1\<rparr>"
    have "ChargeFees e s = ConsumeCollateral e (hd (fst (random_shuffle e ?offs ?s2))) (snd (random_shuffle e ?offs ?s2))"
      using assms False st
      by (auto simp: ChargeFees_def charged_def GetRandInt_def Let_def split_def random_shuffle_def)
    moreover have "hd (fst (random_shuffle e ?offs ?s2)) \<in> set ?offs" using ne by (rule random_shuffle_hd)
    ultimately show ?thesis
      by (auto simp: ConsumeCollateral_eq random_shuffle_def intro!: exI)
  qed
qed

lemma size_t_minus_one_pos: "0 < k \<Longrightarrow> k < 2 ^ 64 \<Longrightarrow> size_t_minus_one k = k - 1"
proof -
  assume k: "0 < k" "k < 2 ^ 64"
  define m :: nat where "m = 2 ^ 64"
  have "k + m - 1 = (k - 1) + m" using k by simp
  hence "(k + m - 1) mod m = (k - 1) mod m" by simp
  also have "\<dots> = k - 1" using k by (simp add: m_def)
  finally show ?thesis by (simp only: size_t_minus_one_def m_def)
qed




text \<open>
  C9 (the code at the failing input).  \<^verbatim>\<open>ChargeRandomFees\<close> returns from the whole loop
  at the first draw above 10.  With three collaterals and the draws 50, 0, 0 the second
  and third collateral, whose own draws are 0, are never looked at: nothing reaches the
  mempool.
\<close>

theorem C9_ChargeRandomFees_early_return:
  "fMasternodeMode first_draw_50_env \<and>
   length (vecSessionCollaterals accepting_state) = 3 \<and>
   RandStream first_draw_50_env 1 mod 100 \<le> 10 \<and>
   RandStream first_draw_50_env 2 mod 100 \<le> 10 \<and>
   sent (ChargeRandomFees first_draw_50_env accepting_state) = [] \<and>
   nRand (ChargeRandomFees first_draw_50_env accepting_state) = 1"
  by (simp add: ChargeRandomFees_def GetRandInt_def first_draw_50_env_def scenario_env_def
        accepting_state_def)

section \<open>Assembling the final transaction\<close>

lemma mset_sort_insert: "mset (sort_insert lt x xs) = add_mset x (mset xs)"
  by (induction xs) simp_all

lemma mset_std_sort: "mset (std_sort lt xs) = mset xs"
  unfolding std_sort_def by (induction xs) (simp_all add: mset_sort_insert)

lemma set_sort_insert: "set (sort_insert lt x xs) = insert x (set xs)"
  by (induction xs) auto

lemma sorted_sort_insert:
  assumes asym: "\<And>a b. lt a b \<Longrightarrow> \<not> lt b a"
      and ntrans: "\<And>a b c. \<not> lt b a \<Longrightarrow> \<not> lt c b \<Longrightarrow> \<not> lt c a"
      and "sorted_wrt (\<lambda>a b. \<not> lt b a) xs"
  shows "sorted_wrt (\<lambda>a b. \<not> lt b a) (sort_insert lt x xs)"
  using assms(3)
proof (induction xs)
  case Nil
  then show ?case by simp
next
  case (Cons y ys)
  show ?case
  proof (cases "lt y x")
    case True
    with Cons asym show ?thesis by (auto simp: set_sort_insert)
  next
    case False
    with Cons ntrans show ?thesis by auto
  qed
qed

lemma sorted_std_sort:
  assumes asym: "\<And>a b. lt a b \<Longrightarrow> \<not> lt b a"
      and ntrans: "\<And>a b c. \<not> lt b a \<Longrightarrow> \<not> lt c b \<Longrightarrow> \<not> lt c a"
  shows "sorted_wrt (\<lambda>a b. \<not> lt b a) (std_sort lt xs)"
  unfolding std_sort_def
  by (induction xs) (simp_all add: sorted_sort_insert[OF asym ntrans])

lemma not_CompareInputBIP69: "(\<not> CompareInputBIP69 b a) = input_le a b"
  by (auto simp: CompareInputBIP69_def input_le_def)

lemma not_CompareOutputBIP69: "(\<not> CompareOutputBIP69 b a) = output_le a b"
  by (auto simp: CompareOutputBIP69_def output_le_def)

lemma sorted_inputs: "sorted_wrt input_le (std_sort CompareInputBIP69 xs)"
proof -
  have "sorted_wrt (\<lambda>a b. \<not> CompareInputBIP69 b a) (std_sort CompareInputBIP69 xs)"
    by (rule sorted_std_sort) (auto simp: CompareInputBIP69_def)
  thus ?thesis by (simp add: not_CompareInputBIP69)
qed

lemma sorted_outputs: "sorted_wrt output_le (std_sort CompareOutputBIP69 xs)"
proof -
  have "sorted_wrt (\<lambda>a b. \<not> CompareOutputBIP69 b a) (std_sort CompareOutputBIP69 xs)"
    by (rule sorted_std_sort) (auto simp: CompareOutputBIP69_def)
  thus ?thesis by (simp add: not_CompareOutputBIP69)
qed

lemma RelayFinalTransaction_loop_reachable:
  assumes "y \<in> set (vecEntries s)" and "connected e (addr y)"
  shows "\<exists>msgs. RelayFinalTransaction_loop e t ens s = s\<lparr>sent := sent s @ msgs\<rparr>"
  using assms
proof (induction ens arbitrary: s)
  case Nil
  have "s = s\<lparr>sent := sent s @ []\<rparr>" by simp
  thus ?case by (metis RelayFinalTransaction_loop.simps(1))
next
  case (Cons en ens)
  show ?case
  proof (cases "connected e (addr en)")
    case True
    let ?s1 = "emit (MsgFinalTx (addr en) (nSessionID s) t) s"
    have "y \<in> set (vecEntries ?s1)" using Cons.prems by (simp add: emit_def)
    from Cons.IH[OF this Cons.prems(2)] obtain msgs where
      "RelayFinalTransaction_loop e t ens ?s1 = ?s1\<lparr>sent := sent ?s1 @ msgs\<rparr>" ..
    hence "RelayFinalTransaction_loop e t (en # ens) s =
             s\<lparr>sent := sent s @ (MsgFinalTx (addr en) (nSessionID s) t # msgs)\<rparr>"
      using True by (simp add: emit_def)
    thus ?thesis ..
  next
    case False
    from RelayStatus_reachable[OF Cons.prems, of STATUS_REJECTED MSG_NOERR] obtain msgs where
      "RelayStatus e STATUS_REJECTED MSG_NOERR s = s\<lparr>sent := sent s @ msgs\<rparr>" by blast
    with False show ?thesis by auto
  qed
qed

lemma RelayFinalTransaction_offline:
  assumes "vecEntries s \<noteq> []" and "\<forall>entry \<in> set (vecEntries s). \<not> connected e (addr entry)"
  shows "RelayFinalTransaction e t s = SetNull e s"
proof -
  from assms(1) obtain en ens where v: "vecEntries s = en # ens" by (cases "vecEntries s") auto
  with assms(2) have "\<not> connected e (addr en)" by simp
  thus ?thesis using v RelayStatus_none_connected[OF assms]
    by (simp add: RelayFinalTransaction_def)
qed


lemma CreateFinalTransaction_unfold:
  "CreateFinalTransaction e s =
     RelayFinalTransaction e
       \<lparr>vin = std_sort CompareInputBIP69 (entries_inputs s),
        vout = std_sort CompareOutputBIP69 (entries_outputs s)\<rparr>
       (SetState e POOL_STATE_SIGNING
          (s\<lparr>finalMutableTransaction :=
               \<lparr>vin = std_sort CompareInputBIP69 (entries_inputs s),
                vout = std_sort CompareOutputBIP69 (entries_outputs s)\<rparr>\<rparr>))"
  by (simp add: CreateFinalTransaction_def Let_def entries_inputs_def entries_outputs_def SetState_def)

lemma SetState_fields [simp]:
  "vecEntries (SetState e st s) = vecEntries s"
  "vecSessionCollaterals (SetState e st s) = vecSessionCollaterals s"
  "finalMutableTransaction (SetState e st s) = finalMutableTransaction s"
  "sent (SetState e st s) = sent s" "mapDSTX (SetState e st s) = mapDSTX s"
  "nRand (SetState e st s) = nRand s" "nSessionID (SetState e st s) = nSessionID s"
  by (simp_all add: SetState_def)

lemma CreateFinalTransaction_online:
  assumes "vecEntries s = [] \<or> (\<exists>entry \<in> set (vecEntries s). connected e (addr entry))"
  shows "\<exists>tr. CreateFinalTransaction e s =
           (SetState e POOL_STATE_SIGNING
              (s\<lparr>finalMutableTransaction :=
                   \<lparr>vin = std_sort CompareInputBIP69 (entries_inputs s),
                    vout = std_sort CompareOutputBIP69 (entries_outputs s)\<rparr>\<rparr>))\<lparr>sent := tr\<rparr>"
proof -
  let ?a = "\<lparr>vin = std_sort CompareInputBIP69 (entries_inputs s),
             vout = std_sort CompareOutputBIP69 (entries_outputs s)\<rparr>"
  let ?s2 = "SetState e POOL_STATE_SIGNING (s\<lparr>finalMutableTransaction := ?a\<rparr>)"
  have ent: "vecEntries ?s2 = vecEntries s" by simp
  from assms show ?thesis
  proof
    assume "vecEntries s = []"
    hence "RelayFinalTransaction e ?a ?s2 = ?s2\<lparr>sent := sent ?s2\<rparr>"
      using ent by (simp add: RelayFinalTransaction_def)
    hence "CreateFinalTransaction e s = ?s2\<lparr>sent := sent ?s2\<rparr>"
      by (simp only: CreateFinalTransaction_unfold)
    thus ?thesis ..
  next
    assume "\<exists>entry \<in> set (vecEntries s). connected e (addr entry)"
    then obtain y where "y \<in> set (vecEntries ?s2)" "connected e (addr y)" using ent by auto
    from RelayFinalTransaction_loop_reachable[OF this, of ?a "vecEntries ?s2"]
    obtain msgs where "RelayFinalTransaction e ?a ?s2 = ?s2\<lparr>sent := sent ?s2 @ msgs\<rparr>"
      unfolding RelayFinalTransaction_def ..
    hence "CreateFinalTransaction e s = ?s2\<lparr>sent := sent ?s2 @ msgs\<rparr>"
      by (simp only: CreateFinalTransaction_unfold)
    thus ?thesis ..
  qed
qed

lemma CreateFinalTransaction_offline:
  assumes "vecEntries s \<noteq> []" and "\<forall>entry \<in> set (vecEntries s). \<not> connected e (addr entry)"
  shows "\<exists>s'. CreateFinalTransaction e s = SetNull e s'"
proof -
  let ?a = "\<lparr>vin = std_sort CompareInputBIP69 (entries_inputs s),
             vout = std_sort CompareOutputBIP69 (entries_outputs s)\<rparr>"
  let ?s2 = "SetState e POOL_STATE_SIGNING (s\<lparr>finalMutableTransaction := ?a\<rparr>)"
  have "RelayFinalTransaction e ?a ?s2 = SetNull e ?s2"
    using assms by (intro RelayFinalTransaction_offline) simp_all
  thus ?thesis by (metis CreateFinalTransaction_unfold)
qed


text \<open>
  C4 (as amended).  When at least one participant of the session can be reached (or there
  is no entry at all), \<^verbatim>\<open>CreateFinalTransaction\<close> leaves as the final transaction exactly the
  inputs and the outputs of all admitted entries (as multisets: nothing added, dropped or
  duplicated), the inputs in ascending order of (prev_hash, prev_index) and the outputs in
  ascending order of (amount, script), keeps the entries, and on a masternode moves the
  session to Signing.  When there are entries and every participant is disconnected, the
  relay that closes the function resets the session: on return the final transaction is
  empty, the entries are gone and the state is Idle.
\<close>

theorem C4_CreateFinalTransaction:
  "(vecEntries s = [] \<or> (\<exists>entry \<in> set (vecEntries s). connected e (addr entry)) \<longrightarrow>
      sorted_wrt input_le (vin (finalMutableTransaction (CreateFinalTransaction e s))) \<and>
      mset (vin (finalMutableTransaction (CreateFinalTransaction e s))) = mset (entries_inputs s) \<and>
      sorted_wrt output_le (vout (finalMutableTransaction (CreateFinalTransaction e s))) \<and>
      mset (vout (finalMutableTransaction (CreateFinalTransaction e s))) = mset (entries_outputs s) \<and>
      vecEntries (CreateFinalTransaction e s) = vecEntries s \<and>
      (fMasternodeMode e \<longrightarrow> nState (CreateFinalTransaction e s) = POOL_STATE_SIGNING)) \<and>
   (vecEntries s \<noteq> [] \<and> (\<forall>entry \<in> set (vecEntries s). \<not> connected e (addr entry)) \<longrightarrow>
      finalMutableTransaction (CreateFinalTransaction e s) = \<lparr>vin = [], vout = []\<rparr> \<and>
      vecEntries (CreateFinalTransaction e s) = [] \<and>
      nState (CreateFinalTransaction e s) = POOL_STATE_IDLE)"
proof (intro conjI impI)
  assume on: "vecEntries s = [] \<or> (\<exists>entry \<in> set (vecEntries s). connected e (addr entry))"
  let ?a = "\<lparr>vin = std_sort CompareInputBIP69 (entries_inputs s),
             vout = std_sort CompareOutputBIP69 (entries_outputs s)\<rparr>"
  from CreateFinalTransaction_online[OF on] obtain tr where
    c: "CreateFinalTransaction e s =
          (SetState e POOL_STATE_SIGNING (s\<lparr>finalMutableTransaction := ?a\<rparr>))\<lparr>sent := tr\<rparr>"
    by blast
  have f: "finalMutableTransaction (CreateFinalTransaction e s) = ?a" by (simp add: c)
  show "sorted_wrt input_le (vin (finalMutableTransaction (CreateFinalTransaction e s)))"
    by (simp add: f sorted_inputs)
  show "mset (vin (finalMutableTransaction (CreateFinalTransaction e s))) = mset (entries_inputs s)"
    by (simp add: f mset_std_sort)
  show "sorted_wrt output_le (vout (finalMutableTransaction (CreateFinalTransaction e s)))"
    by (simp add: f sorted_outputs)
  show "mset (vout (finalMutableTransaction (CreateFinalTransaction e s))) = mset (entries_outputs s)"
    by (simp add: f mset_std_sort)
  show "vecEntries (CreateFinalTransaction e s) = vecEntries s" by (simp add: c)
  show "nState (CreateFinalTransaction e s) = POOL_STATE_SIGNING" if "fMasternodeMode e"
    using that by (simp add: c SetState_def)
next
  assume off: "vecEntries s \<noteq> [] \<and> (\<forall>entry \<in> set (vecEntries s). \<not> connected e (addr entry))"
  hence "\<exists>s'. CreateFinalTransaction e s = SetNull e s'"
    by (intro CreateFinalTransaction_offline) blast+
  then obtain s' where c: "CreateFinalTransaction e s = SetNull e s'" ..
  show "finalMutableTransaction (CreateFinalTransaction e s) = \<lparr>vin = [], vout = []\<rparr>"
    by (simp add: c SetNull_fields)
  show "vecEntries (CreateFinalTransaction e s) = []" by (simp add: c SetNull_fields)
  show "nState (CreateFinalTransaction e s) = POOL_STATE_IDLE" by (simp add: c SetNull_fields)
qed

text \<open>
  The spec's ordering scenario: A offers (h2, 0) and (h1, 5), B offers (h1, 1); the final
  transaction lists (h1, 1), (h1, 5), (h2, 0) and the outputs by script.  With the only
  participant of a session disconnected, the session is reset.
\<close>

theorem C4_CreateFinalTransaction_witness:
  "sorted_wrt input_le (vin (finalMutableTransaction (CreateFinalTransaction scenario_env two_entries_state))) \<and>
   mset (vin (finalMutableTransaction (CreateFinalTransaction scenario_env two_entries_state))) =
     mset (entries_inputs two_entries_state) \<and>
   vin (finalMutableTransaction (CreateFinalTransaction scenario_env two_entries_state)) =
     [CTxIn.truncate (dsin 1 1), CTxIn.truncate (dsin 1 5), CTxIn.truncate (dsin 2 0)] \<and>
   map scriptPubKey (vout (finalMutableTransaction (CreateFinalTransaction scenario_env two_entries_state))) =
     [[1], [2]] \<and>
   nState (CreateFinalTransaction scenario_env two_entries_state) = POOL_STATE_SIGNING \<and>
   nState (CreateFinalTransaction offline_env accepting_state) = POOL_STATE_IDLE"
proof -
  have on: "vecEntries two_entries_state = [] \<or>
            (\<exists>entry \<in> set (vecEntries two_entries_state). connected scenario_env (addr entry))"
    by (auto simp: two_entries_state_def accepting_state_def scenario_env_def)
  have mn: "fMasternodeMode scenario_env" by (simp add: scenario_env_def)
  have off: "vecEntries accepting_state \<noteq> [] \<and>
             (\<forall>entry \<in> set (vecEntries accepting_state). \<not> connected offline_env (addr entry))"
    by (simp add: accepting_state_def offline_env_def)
  have ev: "vin (finalMutableTransaction (CreateFinalTransaction scenario_env two_entries_state)) =
     [CTxIn.truncate (dsin 1 1), CTxIn.truncate (dsin 1 5), CTxIn.truncate (dsin 2 0)] \<and>
   map scriptPubKey (vout (finalMutableTransaction (CreateFinalTransaction scenario_env two_entries_state))) =
     [[1], [2]]"
    by (simp add: CreateFinalTransaction_def Let_def two_entries_state_def accepting_state_def
        entry_of_def dsin_def scenario_env_def std_sort_def CompareInputBIP69_def
        CompareOutputBIP69_def SetState_def RelayFinalTransaction_def emit_def CTxIn.truncate_def)
  from C4_CreateFinalTransaction [of two_entries_state scenario_env] on mn
  have a: "sorted_wrt input_le (vin (finalMutableTransaction (CreateFinalTransaction scenario_env two_entries_state)))"
    "mset (vin (finalMutableTransaction (CreateFinalTransaction scenario_env two_entries_state))) =
          mset (entries_inputs two_entries_state)"
    "nState (CreateFinalTransaction scenario_env two_entries_state) = POOL_STATE_SIGNING"
    by blast+
  from C4_CreateFinalTransaction [of accepting_state offline_env] off
  have b: "nState (CreateFinalTransaction offline_env accepting_state) = POOL_STATE_IDLE"
    by blast
  from a b ev show ?thesis by blast
qed

text \<open>
  The claim as stated fails: a session holds one entry with the input (h1, 0) and its
  participant is disconnected; on return from \<^verbatim>\<open>CreateFinalTransaction\<close> the final
  transaction has no input, so it is not the concatenation of the entries' inputs.
\<close>

theorem C4_counterexample:
  "vecEntries accepting_state \<noteq> [] \<and>
   entries_inputs accepting_state = [CTxIn.truncate (dsin 1 0)] \<and>
   vin (finalMutableTransaction (CreateFinalTransaction offline_env accepting_state)) = [] \<and>
   mset (vin (finalMutableTransaction (CreateFinalTransaction offline_env accepting_state))) \<noteq>
     mset (entries_inputs accepting_state)"
  by (simp add: CreateFinalTransaction_def Let_def accepting_state_def
        entry_of_def dsin_def scenario_env_def offline_env_def std_sort_def CompareInputBIP69_def
        CompareOutputBIP69_def SetState_def RelayFinalTransaction_def emit_def CTxIn.truncate_def
        RelayStatus_def SetNull_def BaseManager_SetNull_def BaseSession_SetNull_def entries_inputs_def)

section \<open>What the relays and the fee routines leave alone\<close>

lemma SetNull_io: "SetNull e (s\<lparr>sent := tr, nRand := k\<rparr>) = (SetNull e s)\<lparr>sent := tr, nRand := k\<rparr>"
  by (simp add: SetNull_def BaseManager_SetNull_def BaseSession_SetNull_def)

lemma SetNull_idem: "SetNull e (SetNull e s) = SetNull e s"
  by (simp add: SetNull_def BaseManager_SetNull_def BaseSession_SetNull_def)

lemma session_kept_io: "session_kept e s (s\<lparr>sent := tr, nRand := k\<rparr>)"
  unfolding session_kept_def by blast

lemma session_kept_refl: "session_kept e s s"
proof -
  have "s = s\<lparr>sent := sent s, nRand := nRand s\<rparr>" by simp
  thus ?thesis unfolding session_kept_def by blast
qed

lemma session_kept_sent: "session_kept e s (s\<lparr>sent := tr\<rparr>)"
proof -
  have "s\<lparr>sent := tr\<rparr> = s\<lparr>sent := tr, nRand := nRand s\<rparr>" by simp
  thus ?thesis unfolding session_kept_def by blast
qed

lemma session_kept_nRand: "session_kept e s (s\<lparr>nRand := k\<rparr>)"
proof -
  have "s\<lparr>nRand := k\<rparr> = s\<lparr>sent := sent s, nRand := k\<rparr>" by simp
  thus ?thesis unfolding session_kept_def by blast
qed

lemma session_kept_SetNull: "session_kept e s (SetNull e s)"
proof -
  have "SetNull e s = SetNull e (s\<lparr>sent := sent s, nRand := nRand s\<rparr>)" by simp
  thus ?thesis unfolding session_kept_def by blast
qed

lemma session_kept_trans:
  assumes "session_kept e s s1" and "session_kept e s1 s2"
  shows "session_kept e s s2"
proof -
  from assms(1) consider (io) tr k where "s1 = s\<lparr>sent := tr, nRand := k\<rparr>"
    | (reset) tr k where "s1 = SetNull e (s\<lparr>sent := tr, nRand := k\<rparr>)"
    unfolding session_kept_def by blast
  then show ?thesis
  proof cases
    case io
    from assms(2) consider (io2) tr' k' where "s2 = s1\<lparr>sent := tr', nRand := k'\<rparr>"
      | (reset2) tr' k' where "s2 = SetNull e (s1\<lparr>sent := tr', nRand := k'\<rparr>)"
      unfolding session_kept_def by blast
    then show ?thesis
    proof cases
      case io2
      with io have "s2 = s\<lparr>sent := tr', nRand := k'\<rparr>" by simp
      thus ?thesis unfolding session_kept_def by blast
    next
      case reset2
      with io have "s2 = SetNull e (s\<lparr>sent := tr', nRand := k'\<rparr>)" by simp
      thus ?thesis unfolding session_kept_def by blast
    qed
  next
    case reset
    from assms(2) consider (io2) tr' k' where "s2 = s1\<lparr>sent := tr', nRand := k'\<rparr>"
      | (reset2) tr' k' where "s2 = SetNull e (s1\<lparr>sent := tr', nRand := k'\<rparr>)"
      unfolding session_kept_def by blast
    then show ?thesis
    proof cases
      case io2
      with reset have "s2 = SetNull e (s\<lparr>sent := tr', nRand := k'\<rparr>)"
        by (simp add: SetNull_io)
      thus ?thesis unfolding session_kept_def by blast
    next
      case reset2
      with reset have "s2 = SetNull e (s\<lparr>sent := tr', nRand := k'\<rparr>)"
        by (simp add: SetNull_io SetNull_idem)
      thus ?thesis unfolding session_kept_def by blast
    qed
  qed
qed

lemma session_kept_emit: "session_kept e s (emit ev s)"
  unfolding emit_def by (rule session_kept_sent)

lemma session_kept_PushStatus: "session_kept e s (PushStatus a u m s)"
  unfolding PushStatus_def by (rule session_kept_emit)

lemma session_kept_ConsumeCollateral: "session_kept e s (ConsumeCollateral e c s)"
  unfolding ConsumeCollateral_eq by (rule session_kept_sent)

lemma session_kept_GetRandInt: "session_kept e s (snd (GetRandInt e k s))"
  unfolding GetRandInt_def by (simp add: session_kept_nRand)

lemma session_kept_RelayStatus: "session_kept e s (RelayStatus e u m s)"
proof (cases "vecEntries s = []")
  case True
  thus ?thesis by (simp add: RelayStatus_no_entries session_kept_refl)
next
  case ne: False
  show ?thesis
  proof (cases "\<exists>y \<in> set (vecEntries s). connected e (addr y)")
    case True
    then obtain y where "y \<in> set (vecEntries s)" "connected e (addr y)" by blast
    from RelayStatus_reachable[OF this, of u m] obtain msgs where
      "RelayStatus e u m s = s\<lparr>sent := sent s @ msgs\<rparr>" by blast
    thus ?thesis by (simp add: session_kept_sent)
  next
    case False
    hence "RelayStatus e u m s = SetNull e s" using ne by (intro RelayStatus_none_connected) auto
    thus ?thesis by (simp add: session_kept_SetNull)
  qed
qed

lemma session_kept_RelayFinalTransaction_loop:
  "session_kept e s (RelayFinalTransaction_loop e t ens s)"
proof (induction ens arbitrary: s)
  case Nil
  show ?case by (simp add: session_kept_refl)
next
  case (Cons en ens)
  show ?case
  proof (cases "connected e (addr en)")
    case True
    have "session_kept e s (emit (MsgFinalTx (addr en) (nSessionID s) t) s)"
      by (rule session_kept_emit)
    from session_kept_trans[OF this Cons.IH] True show ?thesis by simp
  next
    case False
    thus ?thesis by (simp add: session_kept_RelayStatus)
  qed
qed

lemma session_kept_RelayCompletedTransaction_loop:
  "session_kept e s (RelayCompletedTransaction_loop e m ens s)"
proof (induction ens arbitrary: s)
  case Nil
  show ?case by (simp add: session_kept_refl)
next
  case (Cons en ens)
  show ?case
  proof (cases "connected e (addr en)")
    case True
    have "session_kept e s (emit (MsgComplete (addr en) (nSessionID s) m) s)"
      by (rule session_kept_emit)
    from session_kept_trans[OF this Cons.IH] True show ?thesis by simp
  next
    case False
    thus ?thesis by (simp add: session_kept_RelayStatus)
  qed
qed

lemma session_kept_RelayCompletedTransaction:
  "session_kept e s (RelayCompletedTransaction e m s)"
  unfolding RelayCompletedTransaction_def by (rule session_kept_RelayCompletedTransaction_loop)

lemma session_kept_RelayFinalTransaction:
  "session_kept e s (RelayFinalTransaction e t s)"
  unfolding RelayFinalTransaction_def by (rule session_kept_RelayFinalTransaction_loop)

lemma session_kept_ChargeRandomFees_loop:
  "session_kept e s (ChargeRandomFees_loop e cs s)"
proof (induction cs arbitrary: s)
  case Nil
  show ?case by (simp add: session_kept_refl)
next
  case (Cons c cs)
  show ?case
  proof (cases "fst (GetRandInt e 100 s) > 10")
    case True
    thus ?thesis by (simp add: session_kept_GetRandInt)
  next
    case False
    have "session_kept e s (ConsumeCollateral e c (snd (GetRandInt e 100 s)))"
      by (rule session_kept_trans[OF session_kept_GetRandInt session_kept_ConsumeCollateral])
    from session_kept_trans[OF this Cons.IH] False show ?thesis by simp
  qed
qed

lemma session_kept_ChargeRandomFees: "session_kept e s (ChargeRandomFees e s)"
  unfolding ChargeRandomFees_def
  by (simp add: session_kept_refl session_kept_ChargeRandomFees_loop)

lemma session_kept_ChargeFees: "session_kept e s (ChargeFees e s)"
proof (cases "fMasternodeMode e")
  case False
  thus ?thesis by (simp add: ChargeFees_def session_kept_refl)
next
  case mn: True
  show ?thesis
  proof (cases "charged e s")
    case True
    from ChargeFees_charged[OF mn this] obtain k c where
      "ChargeFees e s = s\<lparr>nRand := k, sent := sent s @ consume_events e c\<rparr>" by blast
    hence "ChargeFees e s = s\<lparr>sent := sent s @ consume_events e c, nRand := k\<rparr>" by simp
    thus ?thesis by (simp only: session_kept_io)
  next
    case False
    from ChargeFees_not_charged[OF mn this] obtain k where "ChargeFees e s = s\<lparr>nRand := k\<rparr>" ..
    thus ?thesis by (simp only: session_kept_nRand)
  qed
qed


section \<open>The session invariant\<close>

lemma session_inv_cong:
  assumes "vecEntries s' = vecEntries s" "vecSessionCollaterals s' = vecSessionCollaterals s"
          "nState s' = nState s" "finalMutableTransaction s' = finalMutableTransaction s"
  shows "session_inv s' = session_inv s"
  using assms by (simp add: session_inv_def final_matches_def entries_inputs_def)

lemma session_inv_SetNull: "session_inv (SetNull e s)"
  by (simp add: session_inv_def SetNull_fields)

lemma session_inv_kept:
  assumes "session_inv s" and "session_kept e s s'"
  shows "session_inv s'"
proof -
  from assms(2) consider (io) tr k where "s' = s\<lparr>sent := tr, nRand := k\<rparr>"
    | (reset) tr k where "s' = SetNull e (s\<lparr>sent := tr, nRand := k\<rparr>)"
    unfolding session_kept_def by blast
  then show ?thesis
  proof cases
    case io
    hence "session_inv s' = session_inv s" by (intro session_inv_cong) simp_all
    with assms(1) show ?thesis by simp
  next
    case reset
    thus ?thesis by (simp only: session_inv_SetNull)
  qed
qed

lemma session_kept_nState:
  "session_kept e s s' \<Longrightarrow> nState s' = nState s \<or> nState s' = POOL_STATE_IDLE"
  unfolding session_kept_def by (auto simp: SetNull_fields)

lemma duplicate_input_iff:
  "(\<exists>txin \<in> set (vecTxDSIn entry). \<exists>other \<in> set ens.
      \<exists>txdsin \<in> set (vecTxDSIn other). prevout txdsin = prevout txin) \<longleftrightarrow>
   (\<exists>other \<in> set ens. entry_prevouts entry \<inter> entry_prevouts other \<noteq> {})"
  unfolding entry_prevouts_def by (rule iffI) (blast, fastforce)

lemma AddEntry_cases:
  "session_kept e s (snd (snd (AddEntry e entry m s))) \<and> \<not> fst (AddEntry e entry m s) \<or>
   (fst (AddEntry e entry m s) \<and> snd (snd (AddEntry e entry m s)) = s\<lparr>vecEntries := vecEntries s @ [entry]\<rparr> \<and>
    fst (snd (AddEntry e entry m s)) = MSG_ENTRIES_ADDED \<and> fMasternodeMode e \<and>
    length (vecEntries s) < length (vecSessionCollaterals s) \<and>
    IsCollateralValid e (txCollateral entry) \<and>
    length (vecTxDSIn entry) \<le> PRIVATESEND_ENTRY_MAX_SIZE \<and>
    (\<forall>other \<in> set (vecEntries s). entry_prevouts entry \<inter> entry_prevouts other = {}))"
  unfolding AddEntry_def duplicate_input_iff
  by (auto simp: GetEntriesCount_def Let_def split_def session_kept_refl
        session_kept_ConsumeCollateral)

lemma session_inv_AddEntry:
  assumes "session_inv s" and "nState s \<noteq> POOL_STATE_IDLE" and "nState s \<noteq> POOL_STATE_SIGNING"
  shows "session_inv (snd (snd (AddEntry e entry m s)))"
proof -
  from AddEntry_cases[of e s entry m] show ?thesis
  proof (elim disjE conjE)
    assume "session_kept e s (snd (snd (AddEntry e entry m s)))"
    with assms(1) show ?thesis by (rule session_inv_kept)
  next
    assume eq: "snd (snd (AddEntry e entry m s)) = s\<lparr>vecEntries := vecEntries s @ [entry]\<rparr>"
      and len: "length (vecEntries s) < length (vecSessionCollaterals s)"
      and dis: "\<forall>other \<in> set (vecEntries s). entry_prevouts entry \<inter> entry_prevouts other = {}"
    from dis have "\<forall>other \<in> set (vecEntries s). entry_prevouts other \<inter> entry_prevouts entry = {}"
      by blast
    with assms len show ?thesis
      by (simp add: eq session_inv_def sorted_wrt_append)
  qed
qed


lemma in_key_truncate: "in_key (CTxIn.truncate d) = (prevout d, nSequence d)"
  by (simp add: in_key_def CTxIn.truncate_def)

lemma in_key_zip:
  "map in_key (map CTxIn.truncate xs) = zip (map prevout xs) (map nSequence xs)"
  by (induction xs) (simp_all add: in_key_truncate)

lemma Entry_AddScriptSig_ins_Some:
  assumes "Entry_AddScriptSig_ins txin ins = Some ins'"
  shows "map prevout ins' = map prevout ins \<and> map nSequence ins' = map nSequence ins \<and>
         (\<exists>d \<in> set ins'. prevout d = prevout txin \<and> nSequence d = nSequence txin \<and>
                          scriptSig d = scriptSig txin \<and> fHasSig d)"
  using assms
proof (induction ins arbitrary: ins')
  case Nil
  then show ?case by simp
next
  case (Cons d ds)
  show ?case
  proof (cases "prevout d = prevout txin \<and> nSequence d = nSequence txin")
    case True
    with Cons.prems have "\<not> fHasSig d" and "ins' = d\<lparr>scriptSig := scriptSig txin, fHasSig := True\<rparr> # ds"
      by (auto split: if_splits)
    with True show ?thesis by simp
  next
    case False
    with Cons.prems obtain ds' where ds': "Entry_AddScriptSig_ins txin ds = Some ds'" "ins' = d # ds'"
      by auto
    from Cons.IH[OF ds'(1)] ds'(2) show ?thesis by auto
  qed
qed

lemma Entry_AddScriptSig_Some:
  assumes "Entry_AddScriptSig txin entry = Some entry'"
  shows "entry_prevouts entry' = entry_prevouts entry \<and>
         map in_key (map CTxIn.truncate (vecTxDSIn entry')) = map in_key (map CTxIn.truncate (vecTxDSIn entry)) \<and>
         (\<exists>d \<in> set (vecTxDSIn entry'). prevout d = prevout txin \<and> nSequence d = nSequence txin \<and>
                          scriptSig d = scriptSig txin \<and> fHasSig d)"
proof -
  from assms obtain ins' where i: "Entry_AddScriptSig_ins txin (vecTxDSIn entry) = Some ins'"
     and e': "entry' = entry\<lparr>vecTxDSIn := ins'\<rparr>"
    by (auto simp: Entry_AddScriptSig_def)
  from Entry_AddScriptSig_ins_Some[OF i] have
    p: "map prevout ins' = map prevout (vecTxDSIn entry)" and
    q: "map nSequence ins' = map nSequence (vecTxDSIn entry)" and
    r: "\<exists>d \<in> set ins'. prevout d = prevout txin \<and> nSequence d = nSequence txin \<and>
                          scriptSig d = scriptSig txin \<and> fHasSig d"
    by blast+
  from p have "set (map prevout ins') = set (map prevout (vecTxDSIn entry))" by simp
  hence a: "entry_prevouts entry' = entry_prevouts entry" by (simp add: entry_prevouts_def e')
  have "map in_key (map CTxIn.truncate ins') = zip (map prevout ins') (map nSequence ins')"
    by (rule in_key_zip)
  moreover have "map in_key (map CTxIn.truncate (vecTxDSIn entry)) =
                 zip (map prevout (vecTxDSIn entry)) (map nSequence (vecTxDSIn entry))"
    by (rule in_key_zip)
  ultimately have b: "map in_key (map CTxIn.truncate (vecTxDSIn entry')) =
                      map in_key (map CTxIn.truncate (vecTxDSIn entry))"
    using p q by (simp add: e')
  from a b r show ?thesis by (simp add: e')
qed


lemma AddScriptSig_entries_Some:
  assumes "AddScriptSig_entries txin ens = Some ens'"
  shows "map entry_prevouts ens' = map entry_prevouts ens \<and>
         map in_key (concat (map (\<lambda>entry. map CTxIn.truncate (vecTxDSIn entry)) ens')) =
           map in_key (concat (map (\<lambda>entry. map CTxIn.truncate (vecTxDSIn entry)) ens)) \<and>
         (\<exists>entry \<in> set ens'. \<exists>d \<in> set (vecTxDSIn entry).
             prevout d = prevout txin \<and> nSequence d = nSequence txin \<and>
             scriptSig d = scriptSig txin \<and> fHasSig d)"
  using assms
proof (induction ens arbitrary: ens')
  case Nil
  then show ?case by simp
next
  case (Cons en rest)
  show ?case
  proof (cases "Entry_AddScriptSig txin en")
    case (Some en')
    with Cons.prems have e: "ens' = en' # rest" by simp
    from Entry_AddScriptSig_Some[OF Some] show ?thesis by (simp add: e)
  next
    case None
    with Cons.prems obtain rest' where r: "AddScriptSig_entries txin rest = Some rest'" "ens' = en # rest'"
      by auto
    from Cons.IH[OF r(1)] show ?thesis by (simp add: r(2))
  qed
qed

lemma AddScriptSig_cases:
  "snd (AddScriptSig e txin s) = s \<and> \<not> fst (AddScriptSig e txin s) \<or>
   IsInputScriptSigValid e txin s \<and> nState (snd (AddScriptSig e txin s)) = nState s \<and>
   vecSessionCollaterals (snd (AddScriptSig e txin s)) = vecSessionCollaterals s \<and>
   vin (finalMutableTransaction (snd (AddScriptSig e txin s))) =
     map (\<lambda>t. if prevout t = prevout txin \<and> nSequence t = nSequence txin
               then t\<lparr>scriptSig := scriptSig txin\<rparr> else t) (vin (finalMutableTransaction s)) \<and>
   vout (finalMutableTransaction (snd (AddScriptSig e txin s))) = vout (finalMutableTransaction s) \<and>
   (vecEntries (snd (AddScriptSig e txin s)) = vecEntries s \<and> \<not> fst (AddScriptSig e txin s) \<or>
    fst (AddScriptSig e txin s) \<and>
    AddScriptSig_entries txin (vecEntries s) = Some (vecEntries (snd (AddScriptSig e txin s))))"
  by (auto simp: AddScriptSig_def Let_def split: option.splits)

lemma final_keys_AddScriptSig:
  "map in_key (map (\<lambda>t. if prevout t = prevout txin \<and> nSequence t = nSequence txin
               then t\<lparr>scriptSig := scriptSig txin\<rparr> else t) xs) = map in_key xs"
  by (induction xs) (simp_all add: in_key_def)

lemma session_inv_AddScriptSig:
  assumes "session_inv s"
  shows "session_inv (snd (AddScriptSig e txin s))"
proof -
  let ?s' = "snd (AddScriptSig e txin s)"
  let ?f = "\<lambda>t. if prevout t = prevout txin \<and> nSequence t = nSequence txin
               then t\<lparr>scriptSig := scriptSig txin\<rparr> else t"
  from AddScriptSig_cases[of e txin s] have
    "?s' = s \<or>
     (nState ?s' = nState s \<and> vecSessionCollaterals ?s' = vecSessionCollaterals s \<and>
      vin (finalMutableTransaction ?s') = map ?f (vin (finalMutableTransaction s)) \<and>
      (vecEntries ?s' = vecEntries s \<or>
       AddScriptSig_entries txin (vecEntries s) = Some (vecEntries ?s')))"
    by blast
  then consider
    (same) "?s' = s"
    | (upd) "nState ?s' = nState s" "vecSessionCollaterals ?s' = vecSessionCollaterals s"
        "vin (finalMutableTransaction ?s') = map ?f (vin (finalMutableTransaction s))"
        "vecEntries ?s' = vecEntries s \<or> AddScriptSig_entries txin (vecEntries s) = Some (vecEntries ?s')"
    by blast
  then show ?thesis
  proof cases
    case same
    with assms show ?thesis by simp
  next
    case upd
    from upd(3) have fin: "map in_key (vin (finalMutableTransaction ?s')) =
                           map in_key (vin (finalMutableTransaction s))"
      by (simp only: final_keys_AddScriptSig)
    from upd(4) have ent: "map entry_prevouts (vecEntries ?s') = map entry_prevouts (vecEntries s) \<and>
        map in_key (entries_inputs ?s') = map in_key (entries_inputs s)"
      using AddScriptSig_entries_Some[of txin "vecEntries s" "vecEntries ?s'"]
      by (auto simp: entries_inputs_def)
    hence len: "length (vecEntries ?s') = length (vecEntries s)"
      by (metis length_map)
    have nil: "vecEntries s = [] \<Longrightarrow> vecEntries ?s' = []" using len by simp
    from assms upd(1,2) fin ent len nil show ?thesis
      by (simp add: session_inv_def final_matches_def)
  qed
qed

lemma session_inv_CreateFinalTransaction:
  assumes "session_inv s" and "nState s \<noteq> POOL_STATE_IDLE"
  shows "session_inv (CreateFinalTransaction e s)"
proof -
  let ?a = "\<lparr>vin = std_sort CompareInputBIP69 (entries_inputs s),
             vout = std_sort CompareOutputBIP69 (entries_outputs s)\<rparr>"
  let ?s1 = "s\<lparr>finalMutableTransaction := ?a\<rparr>"
  let ?s2 = "SetState e POOL_STATE_SIGNING ?s1"
  have "set (std_sort CompareInputBIP69 (entries_inputs s)) = set (entries_inputs s)"
    using mset_std_sort[of CompareInputBIP69 "entries_inputs s"] by (rule mset_eq_setD)
  hence fm: "final_matches ?s2"
    by (simp add: final_matches_def entries_inputs_def)
  have "nState ?s2 = POOL_STATE_SIGNING \<or> nState ?s2 = nState s"
    by (simp add: SetState_def)
  with assms fm have "session_inv ?s2"
    by (auto simp: session_inv_def)
  moreover have "session_kept e ?s2 (RelayFinalTransaction e ?a ?s2)"
    by (rule session_kept_RelayFinalTransaction)
  ultimately have "session_inv (RelayFinalTransaction e ?a ?s2)" by (rule session_inv_kept)
  thus ?thesis by (simp only: CreateFinalTransaction_unfold)
qed

lemma session_inv_RelayCompleted_SetNull:
  "session_inv (RelayCompletedTransaction e m (SetNull e s))"
  by (rule session_inv_kept[OF session_inv_SetNull session_kept_RelayCompletedTransaction])

lemma session_inv_CommitFinalTransaction:
  assumes "session_inv s"
  shows "session_inv (CommitFinalTransaction e s)"
  using assms
  by (simp add: CommitFinalTransaction_def Let_def session_inv_SetNull
        session_inv_RelayCompleted_SetNull)

lemma session_inv_ChargeFees: "session_inv s \<Longrightarrow> session_inv (ChargeFees e s)"
  by (rule session_inv_kept[OF _ session_kept_ChargeFees])

lemma nState_ChargeFees: "nState (ChargeFees e s) = nState s \<or> nState (ChargeFees e s) = POOL_STATE_IDLE"
  by (rule session_kept_nState[OF session_kept_ChargeFees])

lemma ChargeFees_io: "\<exists>tr k. ChargeFees e s = s\<lparr>sent := tr, nRand := k\<rparr>"
proof (cases "fMasternodeMode e")
  case False
  hence "ChargeFees e s = s\<lparr>sent := sent s, nRand := nRand s\<rparr>" by (simp add: ChargeFees_def)
  thus ?thesis by blast
next
  case mn: True
  show ?thesis
  proof (cases "charged e s")
    case True
    from ChargeFees_charged[OF mn this] obtain k c where
      "ChargeFees e s = s\<lparr>nRand := k, sent := sent s @ consume_events e c\<rparr>" by blast
    hence "ChargeFees e s = s\<lparr>sent := sent s @ consume_events e c, nRand := k\<rparr>" by simp
    thus ?thesis by blast
  next
    case False
    from ChargeFees_not_charged[OF mn this] obtain k where "ChargeFees e s = s\<lparr>nRand := k\<rparr>" ..
    hence "ChargeFees e s = s\<lparr>sent := sent s, nRand := k\<rparr>" by simp
    thus ?thesis by blast
  qed
qed

lemma session_inv_CheckPool:
  assumes "session_inv s"
  shows "session_inv (CheckPool e s)"
proof -
  obtain tr k where cf: "ChargeFees e s = s\<lparr>sent := tr, nRand := k\<rparr>"
    using ChargeFees_io by blast
  have a: "nState s = POOL_STATE_ACCEPTING_ENTRIES \<Longrightarrow> session_inv (CreateFinalTransaction e s)"
    using assms by (intro session_inv_CreateFinalTransaction) simp_all
  have b: "nState s = POOL_STATE_ACCEPTING_ENTRIES \<Longrightarrow> session_inv (CreateFinalTransaction e (ChargeFees e s))"
    using assms by (intro session_inv_CreateFinalTransaction session_inv_ChargeFees) (simp_all add: cf)
  from assms a b show ?thesis
    by (simp add: CheckPool_def session_inv_CommitFinalTransaction)
qed

lemma session_inv_CheckTimeout:
  assumes "session_inv s"
  shows "session_inv (CheckTimeout e s)"
proof -
  have "session_inv (CheckQueue e s) = session_inv s"
    by (intro session_inv_cong) (simp_all add: CheckQueue_def)
  with assms show ?thesis
    by (simp add: CheckTimeout_def Let_def session_inv_SetNull)
qed

lemma session_inv_CheckForCompleteQueue:
  assumes "session_inv s"
  shows "session_inv (CheckForCompleteQueue e s)"
  using assms
  by (auto simp: CheckForCompleteQueue_def Let_def emit_def SetState_def session_inv_def
        final_matches_def entries_inputs_def)

lemma session_inv_DoMaintenance:
  "session_inv s \<Longrightarrow> session_inv (DoMaintenance e s)"
  by (simp add: DoMaintenance_def session_inv_CheckTimeout session_inv_CheckPool
        session_inv_CheckForCompleteQueue)

lemma session_inv_PushStatus [simp]: "session_inv (PushStatus a u m s) = session_inv s"
  by (intro session_inv_cong) (simp_all add: PushStatus_def emit_def)

lemma session_inv_emit [simp]: "session_inv (emit ev s) = session_inv s"
  by (intro session_inv_cong) (simp_all add: emit_def)

lemma session_inv_CreateNewSession:
  assumes "session_inv s"
  shows "session_inv (snd (snd (CreateNewSession e dsa m s)))"
  using assms
  by (auto simp: CreateNewSession_def Let_def split_def GetRandInt_def SetState_def emit_def
        session_inv_def final_matches_def entries_inputs_def)

lemma session_inv_AddUserToExistingSession:
  assumes "session_inv s"
  shows "session_inv (snd (snd (AddUserToExistingSession e dsa m s)))"
  using assms
  by (auto simp: AddUserToExistingSession_def session_inv_def final_matches_def entries_inputs_def)

lemma session_inv_Process_DSACCEPT:
  assumes "session_inv s"
  shows "session_inv (Process_DSACCEPT e pfrom dsa s)"
  using assms session_inv_CreateNewSession[OF assms, of e dsa MSG_NOERR]
        session_inv_AddUserToExistingSession[OF assms, of e dsa MSG_NOERR]
  by (simp add: Process_DSACCEPT_def Let_def split_def)

lemma session_inv_Process_DSQUEUE:
  assumes "session_inv s"
  shows "session_inv (Process_DSQUEUE e pfrom dsq s)"
proof -
  have "session_inv (Process_DSQUEUE e pfrom dsq s) = session_inv s"
    by (intro session_inv_cong) (simp_all add: Process_DSQUEUE_def Let_def emit_def)
  with assms show ?thesis by simp
qed

lemma IsSessionReady_state:
  "IsSessionReady e s \<Longrightarrow> nState s = POOL_STATE_QUEUE \<or> nState s = POOL_STATE_ACCEPTING_ENTRIES"
  by (auto simp: IsSessionReady_def split: if_splits)

lemma session_inv_RelayStatus: "session_inv s \<Longrightarrow> session_inv (RelayStatus e u m s)"
  by (rule session_inv_kept[OF _ session_kept_RelayStatus])

lemma session_inv_Process_DSVIN:
  assumes "session_inv s"
  shows "session_inv (Process_DSVIN e pfrom entry s)"
proof (cases "IsSessionReady e s")
  case False
  with assms show ?thesis by (simp add: Process_DSVIN_def)
next
  case True
  hence "nState s \<noteq> POOL_STATE_IDLE" "nState s \<noteq> POOL_STATE_SIGNING"
    using IsSessionReady_state by fastforce+
  from session_inv_AddEntry[OF assms this, of e "entry\<lparr>addr := node_addr pfrom\<rparr>" MSG_NOERR]
  show ?thesis using assms
    by (simp add: Process_DSVIN_def Let_def split_def session_inv_RelayStatus session_inv_CheckPool)
qed

lemma session_inv_Process_DSSIGNFINALTX_loop:
  "session_inv s \<Longrightarrow> session_inv (Process_DSSIGNFINALTX_loop e ins s)"
proof (induction ins arbitrary: s)
  case Nil
  thus ?case by (simp add: session_inv_CheckPool)
next
  case (Cons txin rest)
  from Cons.prems have i: "session_inv (snd (AddScriptSig e txin s))"
    by (rule session_inv_AddScriptSig)
  show ?case
  proof (cases "fst (AddScriptSig e txin s)")
    case True
    with Cons.IH[OF i] show ?thesis by simp
  next
    case False
    with i show ?thesis by (simp add: session_inv_RelayStatus)
  qed
qed

lemma session_inv_ProcessMessage:
  assumes "session_inv s"
  shows "session_inv (ProcessMessage e pfrom msg s)"
  using assms
  by (cases msg)
     (simp_all add: session_inv_Process_DSACCEPT session_inv_Process_DSQUEUE
        session_inv_Process_DSVIN Process_DSSIGNFINALTX_def
        session_inv_Process_DSSIGNFINALTX_loop)

lemma session_inv_initial: "session_inv (initial_server t)"
  by (simp add: session_inv_def initial_server_def)

lemma reachable_session_inv: "reachable s \<Longrightarrow> session_inv s"
proof (induction rule: reachable.induct)
  case (reach_init t)
  show ?case by (rule session_inv_initial)
next
  case (reach_msg s e pfrom m)
  thus ?case by (simp only: session_inv_ProcessMessage)
next
  case (reach_tick s e)
  thus ?case by (simp only: session_inv_DoMaintenance)
qed

section \<open>Committing the final transaction\<close>

lemma AddDSTX_fields [simp]:
  "nState (AddDSTX e d s) = nState s" "sent (AddDSTX e d s) = sent s"
  by (simp_all add: AddDSTX_def split: option.splits)




text \<open>
  The routines that the commit calls, and those they call in turn, leave the session out
  of Success when it was not there: each either keeps the state or resets it to Idle, and
  \<^verbatim>\<open>SetState\<close> refuses Success.  So the session is not in Success inside any of the steps
  either.
\<close>

lemma commit_callees_never_Success:
  assumes "nState s \<noteq> POOL_STATE_SUCCESS"
  shows "nState (emit ev s) \<noteq> POOL_STATE_SUCCESS"
    and "nState (AddDSTX e d s) \<noteq> POOL_STATE_SUCCESS"
    and "nState (PushStatus a u m s) \<noteq> POOL_STATE_SUCCESS"
    and "nState (RelayStatus e u m s) \<noteq> POOL_STATE_SUCCESS"
    and "nState (RelayCompletedTransaction e m s) \<noteq> POOL_STATE_SUCCESS"
    and "nState (snd (GetRandInt e k s)) \<noteq> POOL_STATE_SUCCESS"
    and "nState (ConsumeCollateral e c s) \<noteq> POOL_STATE_SUCCESS"
    and "nState (ChargeRandomFees e s) \<noteq> POOL_STATE_SUCCESS"
    and "nState (SetNull e s) \<noteq> POOL_STATE_SUCCESS"
    and "nState (SetState e st s) \<noteq> POOL_STATE_SUCCESS"
proof -
  have k: "\<And>s'. session_kept e s s' \<Longrightarrow> nState s' \<noteq> POOL_STATE_SUCCESS"
    using session_kept_nState assms by fastforce
  show "nState (emit ev s) \<noteq> POOL_STATE_SUCCESS" by (rule k) (rule session_kept_emit)
  show "nState (AddDSTX e d s) \<noteq> POOL_STATE_SUCCESS" using assms by simp
  show "nState (PushStatus a u m s) \<noteq> POOL_STATE_SUCCESS"
    by (rule k) (rule session_kept_PushStatus)
  show "nState (RelayStatus e u m s) \<noteq> POOL_STATE_SUCCESS"
    by (rule k) (rule session_kept_RelayStatus)
  show "nState (RelayCompletedTransaction e m s) \<noteq> POOL_STATE_SUCCESS"
    by (rule k) (rule session_kept_RelayCompletedTransaction)
  show "nState (snd (GetRandInt e k s)) \<noteq> POOL_STATE_SUCCESS"
    by (rule k) (rule session_kept_GetRandInt)
  show "nState (ConsumeCollateral e c s) \<noteq> POOL_STATE_SUCCESS"
    by (rule k) (rule session_kept_ConsumeCollateral)
  show "nState (ChargeRandomFees e s) \<noteq> POOL_STATE_SUCCESS"
    by (rule k) (rule session_kept_ChargeRandomFees)
  show "nState (SetNull e s) \<noteq> POOL_STATE_SUCCESS" by (simp add: SetNull_fields)
  show "nState (SetState e st s) \<noteq> POOL_STATE_SUCCESS" using assms by (simp add: SetState_def)
qed




section \<open>A run of the server\<close>

text \<open>
  The states of the concrete run, computed step by step: three \<^verbatim>\<open>dsa\<close>, a tick, three
  \<^verbatim>\<open>dsi\<close>.  Each of them is reachable.
\<close>

lemmas msg_defs = Process_DSACCEPT_def Process_DSVIN_def Process_DSSIGNFINALTX_def
  IsSessionReady_def HasTimedOut_def CreateNewSession_def AddUserToExistingSession_def
  IsAcceptableDSA_def GetRandInt_def SetState_def PushStatus_def emit_def Let_def split_def
  MIN_PRIVATESEND_PEER_PROTO_VERSION_def PRIVATESEND_QUEUE_TIMEOUT_def PRIVATESEND_SIGNING_TIMEOUT_def
  PRIVATESEND_ENTRY_MAX_SIZE_def
  AddEntry_def GetEntriesCount_def CheckPool_def RelayStatus_def ConsumeCollateral_def
  DoMaintenance_def CheckForCompleteQueue_def CheckTimeout_def CheckQueue_def IsExpired_def int64_wrap_def
  int32_wrap_def uint64_of_def

lemmas scen_defs = scenario_env_def peer_def dsa_of_def collateral_of_def entry_of_def dsin_def

lemma queue_state_1_eval:
  "queue_state_1 =
     (initial_server 1000)
       \<lparr>vecSessionCollaterals := [collateral_of 1],
        vecPrivateSendQueue := [\<lparr>nDenom = 1, masternodeOutpoint = \<lparr>hash = 77, nIndex = 0\<rparr>,
                                  nTime = 1000, fReady = False, vchSig = [], fTried = False\<rparr>],
        nState := POOL_STATE_QUEUE, nSessionID := 1, nSessionDenom := 1,
        sent := [RelayQueue \<lparr>nDenom = 1, masternodeOutpoint = \<lparr>hash = 77, nIndex = 0\<rparr>,
                             nTime = 1000, fReady = False, vchSig = [], fTried = False\<rparr>,
                 MsgStatusUpdate 1 1 POOL_STATE_QUEUE 0 STATUS_ACCEPTED MSG_NOERR],
        nRand := 1\<rparr>"
  by (simp add: queue_state_1_def initial_server_def msg_defs scen_defs)


lemma queue_state_2_eval:
  "queue_state_2 =
     queue_state_1
       \<lparr>vecSessionCollaterals := [collateral_of 1, collateral_of 2],
        sent := sent queue_state_1 @ [MsgStatusUpdate 2 1 POOL_STATE_QUEUE 0 STATUS_ACCEPTED MSG_NOERR]\<rparr>"
  by (simp add: queue_state_2_def queue_state_1_eval initial_server_def msg_defs scen_defs)

lemma queue_full_state_eval:
  "queue_full_state =
     queue_state_1
       \<lparr>vecSessionCollaterals := [collateral_of 1, collateral_of 2, collateral_of 3],
        sent := sent queue_state_1 @
                [MsgStatusUpdate 2 1 POOL_STATE_QUEUE 0 STATUS_ACCEPTED MSG_NOERR,
                 MsgStatusUpdate 3 1 POOL_STATE_QUEUE 0 STATUS_ACCEPTED MSG_NOERR]\<rparr>"
  by (simp add: queue_full_state_def queue_state_2_eval queue_state_1_eval initial_server_def
        msg_defs scen_defs)

lemma ready_state_eval:
  "ready_state =
     queue_full_state
       \<lparr>nState := POOL_STATE_ACCEPTING_ENTRIES,
        sent := sent queue_full_state @
                [RelayQueue \<lparr>nDenom = 1, masternodeOutpoint = \<lparr>hash = 77, nIndex = 0\<rparr>,
                             nTime = 1000, fReady = True, vchSig = [], fTried = False\<rparr>]\<rparr>"
  by (simp add: ready_state_def queue_full_state_eval queue_state_1_eval initial_server_def
        msg_defs scen_defs)

lemma one_entry_state_eval:
  "one_entry_state =
     ready_state
       \<lparr>vecEntries := [entry_of 1 [dsin 2 0, dsin 1 5]],
        sent := sent ready_state @
                [MsgStatusUpdate 1 1 POOL_STATE_ACCEPTING_ENTRIES 0 STATUS_ACCEPTED MSG_ENTRIES_ADDED,
                 MsgStatusUpdate 1 1 POOL_STATE_ACCEPTING_ENTRIES 0 STATUS_ACCEPTED MSG_NOERR]\<rparr>"
  by (simp add: one_entry_state_def ready_state_eval queue_full_state_eval queue_state_1_eval
        initial_server_def msg_defs scen_defs)

lemma two_entry_run_state_eval:
  "two_entry_run_state =
     one_entry_state
       \<lparr>vecEntries := [entry_of 1 [dsin 2 0, dsin 1 5], entry_of 2 [dsin 1 1]],
        sent := sent one_entry_state @
                [MsgStatusUpdate 2 1 POOL_STATE_ACCEPTING_ENTRIES 0 STATUS_ACCEPTED MSG_ENTRIES_ADDED,
                 MsgStatusUpdate 1 1 POOL_STATE_ACCEPTING_ENTRIES 0 STATUS_ACCEPTED MSG_NOERR,
                 MsgStatusUpdate 2 1 POOL_STATE_ACCEPTING_ENTRIES 0 STATUS_ACCEPTED MSG_NOERR]\<rparr>"
  by (simp add: two_entry_run_state_def one_entry_state_eval ready_state_eval queue_full_state_eval
        queue_state_1_eval initial_server_def msg_defs scen_defs)

lemma signing_run_state_eval:
  "nState signing_run_state = POOL_STATE_SIGNING \<and>
   vecSessionCollaterals signing_run_state = [collateral_of 1, collateral_of 2, collateral_of 3] \<and>
   vecEntries signing_run_state =
     [entry_of 1 [dsin 2 0, dsin 1 5], entry_of 2 [dsin 1 1], entry_of 3 [dsin 3 0]] \<and>
   finalMutableTransaction signing_run_state =
     \<lparr>vin = map CTxIn.truncate [dsin 1 1, dsin 1 5, dsin 2 0, dsin 3 0], vout = []\<rparr>"
  by (simp add: signing_run_state_def two_entry_run_state_eval one_entry_state_eval ready_state_eval
        queue_full_state_eval queue_state_1_eval initial_server_def msg_defs scen_defs
        CreateFinalTransaction_def std_sort_def CompareInputBIP69_def CompareOutputBIP69_def
        RelayFinalTransaction_def CTxIn.truncate_def)

lemma reachable_run:
  "reachable queue_full_state" "reachable one_entry_state" "reachable signing_run_state"
  unfolding signing_run_state_def two_entry_run_state_def one_entry_state_def ready_state_def
    queue_full_state_def queue_state_2_def queue_state_1_def
  by (intro reach_msg reach_tick reach_init)+
lemma ready_fields:
  "vecEntries ready_state = []" "nState ready_state = POOL_STATE_ACCEPTING_ENTRIES"
  "vecSessionCollaterals ready_state = [collateral_of 1, collateral_of 2, collateral_of 3]"
  by (simp_all add: ready_state_eval queue_full_state_eval queue_state_1_eval initial_server_def)

lemma one_entry_fields:
  "vecEntries one_entry_state = [entry_of 1 [dsin 2 0, dsin 1 5]]"
  "nState one_entry_state = POOL_STATE_ACCEPTING_ENTRIES"
  "vecSessionCollaterals one_entry_state = [collateral_of 1, collateral_of 2, collateral_of 3]"
  "finalMutableTransaction one_entry_state = \<lparr>vin = [], vout = []\<rparr>"
  "nSessionID one_entry_state = 1" "nSessionDenom one_entry_state = 1"
  by (simp_all add: one_entry_state_eval ready_state_eval queue_full_state_eval queue_state_1_eval
        initial_server_def)


section \<open>Checking and storing signature scripts\<close>

lemma find_txin_result:
  "(find_txin p xs k acc = acc \<and> (\<forall>i < length xs. prevout (xs ! i) \<noteq> p)) \<or>
   (\<exists>i. last_match p xs i \<and> find_txin p xs k acc = Some (k + i, prevPubKey (xs ! i)))"
proof (induction xs arbitrary: k acc)
  case Nil
  show ?case by simp
next
  case (Cons x xs)
  let ?acc = "if prevout x = p then Some (k, prevPubKey x) else acc"
  from Cons.IH[of "k + 1" ?acc] show ?case
  proof (elim disjE conjE exE)
    assume r: "find_txin p xs (k + 1) ?acc = ?acc" and none: "\<forall>i < length xs. prevout (xs ! i) \<noteq> p"
    show ?thesis
    proof (cases "prevout x = p")
      case True
      have "last_match p (x # xs) 0" using True none
        by (auto simp: last_match_def nth_Cons split: nat.splits)
      moreover have "find_txin p (x # xs) k acc = Some (k + 0, prevPubKey ((x # xs) ! 0))"
        using r True by simp
      ultimately show ?thesis by blast
    next
      case False
      hence "find_txin p (x # xs) k acc = acc" using r by simp
      moreover have "\<forall>i < length (x # xs). prevout ((x # xs) ! i) \<noteq> p"
        using False none by (auto simp: nth_Cons split: nat.splits)
      ultimately show ?thesis by blast
    qed
  next
    fix i
    assume lm: "last_match p xs i"
       and r: "find_txin p xs (k + 1) ?acc = Some (k + 1 + i, prevPubKey (xs ! i))"
    have "last_match p (x # xs) (Suc i)" using lm
      by (auto simp: last_match_def nth_Cons split: nat.splits)
    moreover have "find_txin p (x # xs) k acc = Some (k + Suc i, prevPubKey ((x # xs) ! Suc i))"
      using r by simp
    ultimately show ?thesis by blast
  qed
qed

lemma last_match_unique:
  assumes "last_match p xs i" and "last_match p xs j"
  shows "i = j"
proof (rule ccontr)
  assume "i \<noteq> j"
  hence "i < j \<or> j < i" by arith
  thus False
  proof
    assume "i < j"
    with assms show False unfolding last_match_def by blast
  next
    assume "j < i"
    with assms show False unfolding last_match_def by blast
  qed
qed

lemma rebuilt_tx_eq: "rebuilt_tx s = \<lparr>vin = entries_inputs s, vout = entries_outputs s\<rparr>"
  by (simp add: rebuilt_tx_def entries_inputs_def entries_outputs_def)

lemma IsInputScriptSigValid_iff:
  "IsInputScriptSigValid e txin s \<longleftrightarrow>
     (\<exists>i. last_match (prevout txin) (entries_dsins s) i \<and>
          VerifyScript e (scriptSig txin) (prevPubKey (entries_dsins s ! i))
            ((rebuilt_tx s)\<lparr>vin := (vin (rebuilt_tx s))
                                   [i := (vin (rebuilt_tx s) ! i)\<lparr>scriptSig := scriptSig txin\<rparr>]\<rparr>) i)"
proof -
  let ?xs = "entries_dsins s"
  from find_txin_result[of "prevout txin" ?xs 0 None]
  show ?thesis
  proof (elim disjE conjE exE)
    assume "find_txin (prevout txin) ?xs 0 None = None"
       and none: "\<forall>i < length ?xs. prevout (?xs ! i) \<noteq> prevout txin"
    hence "\<not> IsInputScriptSigValid e txin s"
      by (simp add: IsInputScriptSigValid_def entries_dsins_def)
    moreover from none have "\<not> (\<exists>i. last_match (prevout txin) ?xs i)"
      by (auto simp: last_match_def)
    ultimately show ?thesis by blast
  next
    fix i
    assume lm: "last_match (prevout txin) ?xs i"
       and r: "find_txin (prevout txin) ?xs 0 None = Some (0 + i, prevPubKey (?xs ! i))"
    from r have "IsInputScriptSigValid e txin s \<longleftrightarrow>
        VerifyScript e (scriptSig txin) (prevPubKey (?xs ! i))
            ((rebuilt_tx s)\<lparr>vin := (vin (rebuilt_tx s))
                                   [i := (vin (rebuilt_tx s) ! i)\<lparr>scriptSig := scriptSig txin\<rparr>]\<rparr>) i"
      by (simp add: IsInputScriptSigValid_def entries_dsins_def Let_def)
    with lm last_match_unique[OF lm] show ?thesis by blast
  qed
qed

lemma AddScriptSig_accepted:
  assumes "fst (AddScriptSig e txin s)"
  shows "IsInputScriptSigValid e txin s \<and>
         nState (snd (AddScriptSig e txin s)) = nState s \<and>
         (\<exists>entry \<in> set (vecEntries (snd (AddScriptSig e txin s))). \<exists>d \<in> set (vecTxDSIn entry).
             prevout d = prevout txin \<and> nSequence d = nSequence txin \<and>
             scriptSig d = scriptSig txin \<and> fHasSig d) \<and>
         vin (finalMutableTransaction (snd (AddScriptSig e txin s))) =
           map (\<lambda>t. if prevout t = prevout txin \<and> nSequence t = nSequence txin
                     then t\<lparr>scriptSig := scriptSig txin\<rparr> else t)
               (vin (finalMutableTransaction s))"
proof -
  let ?s' = "snd (AddScriptSig e txin s)"
  from AddScriptSig_cases[of e txin s] assms have
    v: "IsInputScriptSigValid e txin s" and st: "nState ?s' = nState s" and
    f: "vin (finalMutableTransaction ?s') =
           map (\<lambda>t. if prevout t = prevout txin \<and> nSequence t = nSequence txin
                     then t\<lparr>scriptSig := scriptSig txin\<rparr> else t)
               (vin (finalMutableTransaction s))" and
    en: "AddScriptSig_entries txin (vecEntries s) = Some (vecEntries ?s')"
    by blast+
  from AddScriptSig_entries_Some[OF en] v st f show ?thesis by blast
qed

lemmas sig_defs = AddScriptSig_def IsInputScriptSigValid_def rebuilt_tx_def Entry_AddScriptSig_def
  CTxIn.truncate_def Let_def


text \<open>
  What the code does.  \<^verbatim>\<open>IsInputScriptSigValid\<close> checks a submitted scriptSig against a
  transaction it rebuilds from the admitted entries in admission order (their inputs and
  outputs concatenated, not sorted), at the position that the last input with the
  submitted OutPoint has in that order, with that input's recorded \<^verbatim>\<open>prevPubKey\<close>; it
  does not look at \<^verbatim>\<open>finalMutableTransaction\<close>.  \<^verbatim>\<open>AddScriptSig\<close> accepts a scriptSig only
  if that check passes.  On acceptance an entry input with the submitted OutPoint and
  sequence carries the scriptSig and is flagged as signed, and every input of the final
  transaction with that OutPoint and sequence carries it; in a reachable Signing state
  there is such an input in the final transaction.
\<close>

lemma AddScriptSig_rebuilt_check:
  "(IsInputScriptSigValid e txin s \<longleftrightarrow>
     (\<exists>i. last_match (prevout txin) (entries_dsins s) i \<and>
          VerifyScript e (scriptSig txin) (prevPubKey (entries_dsins s ! i))
            ((rebuilt_tx s)\<lparr>vin := (vin (rebuilt_tx s))
                                   [i := (vin (rebuilt_tx s) ! i)\<lparr>scriptSig := scriptSig txin\<rparr>]\<rparr>) i)) \<and>
   rebuilt_tx s = \<lparr>vin = entries_inputs s, vout = entries_outputs s\<rparr> \<and>
   (fst (AddScriptSig e txin s) \<longrightarrow>
      IsInputScriptSigValid e txin s \<and>
      (\<exists>entry \<in> set (vecEntries (snd (AddScriptSig e txin s))). \<exists>d \<in> set (vecTxDSIn entry).
          prevout d = prevout txin \<and> nSequence d = nSequence txin \<and>
          scriptSig d = scriptSig txin \<and> fHasSig d) \<and>
      vin (finalMutableTransaction (snd (AddScriptSig e txin s))) =
        map (\<lambda>t. if prevout t = prevout txin \<and> nSequence t = nSequence txin
                  then t\<lparr>scriptSig := scriptSig txin\<rparr> else t)
            (vin (finalMutableTransaction s)) \<and>
      (reachable s \<and> nState s = POOL_STATE_SIGNING \<longrightarrow>
         (\<exists>t \<in> set (vin (finalMutableTransaction (snd (AddScriptSig e txin s)))).
             prevout t = prevout txin \<and> nSequence t = nSequence txin \<and>
             scriptSig t = scriptSig txin)))"
proof (intro conjI impI)
  show "IsInputScriptSigValid e txin s \<longleftrightarrow>
     (\<exists>i. last_match (prevout txin) (entries_dsins s) i \<and>
          VerifyScript e (scriptSig txin) (prevPubKey (entries_dsins s ! i))
            ((rebuilt_tx s)\<lparr>vin := (vin (rebuilt_tx s))
                                   [i := (vin (rebuilt_tx s) ! i)\<lparr>scriptSig := scriptSig txin\<rparr>]\<rparr>) i)"
    by (rule IsInputScriptSigValid_iff)
  show "rebuilt_tx s = \<lparr>vin = entries_inputs s, vout = entries_outputs s\<rparr>"
    by (rule rebuilt_tx_eq)
next
  assume ok: "fst (AddScriptSig e txin s)"
  let ?s' = "snd (AddScriptSig e txin s)"
  note acc = AddScriptSig_accepted[OF ok]
  from acc show "IsInputScriptSigValid e txin s" by blast
  from acc show en: "\<exists>entry \<in> set (vecEntries ?s'). \<exists>d \<in> set (vecTxDSIn entry).
          prevout d = prevout txin \<and> nSequence d = nSequence txin \<and>
          scriptSig d = scriptSig txin \<and> fHasSig d" by blast
  from acc show fin: "vin (finalMutableTransaction ?s') =
        map (\<lambda>t. if prevout t = prevout txin \<and> nSequence t = nSequence txin
                  then t\<lparr>scriptSig := scriptSig txin\<rparr> else t)
            (vin (finalMutableTransaction s))" by blast
  assume rs: "reachable s \<and> nState s = POOL_STATE_SIGNING"
  hence "session_inv ?s'" using reachable_session_inv session_inv_AddScriptSig by blast
  moreover from acc rs have "nState ?s' = POOL_STATE_SIGNING" by simp
  ultimately have fm: "set (map in_key (vin (finalMutableTransaction ?s'))) =
                       set (map in_key (entries_inputs ?s'))"
    by (simp add: session_inv_def final_matches_def)
  from en obtain entry d where d: "entry \<in> set (vecEntries ?s')" "d \<in> set (vecTxDSIn entry)"
     "prevout d = prevout txin" "nSequence d = nSequence txin" by blast
  hence "CTxIn.truncate d \<in> set (entries_inputs ?s')"
    by (auto simp: entries_inputs_def)
  hence "in_key (CTxIn.truncate d) \<in> set (map in_key (entries_inputs ?s'))" by simp
  with fm have "in_key (CTxIn.truncate d) \<in> in_key ` set (vin (finalMutableTransaction ?s'))"
    by simp
  then obtain t where t: "t \<in> set (vin (finalMutableTransaction ?s'))"
      "in_key t = in_key (CTxIn.truncate d)" by (metis imageE)
  from t(2) d(3,4) have k: "prevout t = prevout txin" "nSequence t = nSequence txin"
    by (simp_all add: in_key_def CTxIn.truncate_def)
  from t(1) fin obtain t0 where "t0 \<in> set (vin (finalMutableTransaction s))"
     "t = (if prevout t0 = prevout txin \<and> nSequence t0 = nSequence txin
                  then t0\<lparr>scriptSig := scriptSig txin\<rparr> else t0)" by auto
  with k have "scriptSig t = scriptSig txin" by (auto split: if_splits)
  with t(1) k show "\<exists>t \<in> set (vin (finalMutableTransaction ?s')).
             prevout t = prevout txin \<and> nSequence t = nSequence txin \<and>
             scriptSig t = scriptSig txin" by blast
qed

text \<open>
  C5.  The check is made against another transaction than the one relayed for signing.
  In the run, A's entry holds the inputs (h2, 0) and (h1, 5), B's (h1, 1) and C's (h3, 0);
  the server is in Signing and its final transaction, sorted, lists (h1, 1) first, while
  the transaction rebuilt by \<^verbatim>\<open>IsInputScriptSigValid\<close> lists it third.  Let the script check
  accept exactly the scriptSig that names the index it is checked at.  The scriptSig [2]
  for (h1, 1) is then accepted and stored, although it does not verify against the final
  transaction at the index 0 of that input; and the scriptSig [0], which does verify
  against the final transaction at index 0, is rejected and leaves the server as it was.
\<close>

theorem C5_IsInputScriptSigValid_unsorted:
  "reachable signing_run_state \<and> nState signing_run_state = POOL_STATE_SIGNING \<and>
   vin (finalMutableTransaction signing_run_state) =
     [CTxIn.truncate (dsin 1 1), CTxIn.truncate (dsin 1 5), CTxIn.truncate (dsin 2 0),
      CTxIn.truncate (dsin 3 0)] \<and>
   vin (rebuilt_tx signing_run_state) =
     [CTxIn.truncate (dsin 2 0), CTxIn.truncate (dsin 1 5), CTxIn.truncate (dsin 1 1),
      CTxIn.truncate (dsin 3 0)] \<and>
   prevout sig_for_1_1 = prevout (dsin 1 1) \<and> prevout sig_final_1_1 = prevout (dsin 1 1) \<and>
   fst (AddScriptSig index_env sig_for_1_1 signing_run_state) \<and>
   vin (finalMutableTransaction (snd (AddScriptSig index_env sig_for_1_1 signing_run_state))) =
     [sig_for_1_1, CTxIn.truncate (dsin 1 5), CTxIn.truncate (dsin 2 0), CTxIn.truncate (dsin 3 0)] \<and>
   \<not> VerifyScript index_env (scriptSig sig_for_1_1) (prevPubKey (dsin 1 1))
       ((finalMutableTransaction signing_run_state)
          \<lparr>vin := (vin (finalMutableTransaction signing_run_state))
                     [0 := (vin (finalMutableTransaction signing_run_state) ! 0)
                             \<lparr>scriptSig := scriptSig sig_for_1_1\<rparr>]\<rparr>) 0 \<and>
   VerifyScript index_env (scriptSig sig_final_1_1) (prevPubKey (dsin 1 1))
       ((finalMutableTransaction signing_run_state)
          \<lparr>vin := (vin (finalMutableTransaction signing_run_state))
                     [0 := (vin (finalMutableTransaction signing_run_state) ! 0)
                             \<lparr>scriptSig := scriptSig sig_final_1_1\<rparr>]\<rparr>) 0 \<and>
   \<not> IsInputScriptSigValid index_env sig_final_1_1 signing_run_state \<and>
   AddScriptSig index_env sig_final_1_1 signing_run_state = (False, signing_run_state)"
proof -
  have 1: "nState signing_run_state = POOL_STATE_SIGNING"
    by (simp add: signing_run_state_eval)
  have 2: "vin (finalMutableTransaction signing_run_state) =
     [CTxIn.truncate (dsin 1 1), CTxIn.truncate (dsin 1 5), CTxIn.truncate (dsin 2 0),
      CTxIn.truncate (dsin 3 0)]"
    by (simp add: signing_run_state_eval dsin_def CTxIn.truncate_def)
  have 3: "vin (rebuilt_tx signing_run_state) =
     [CTxIn.truncate (dsin 2 0), CTxIn.truncate (dsin 1 5), CTxIn.truncate (dsin 1 1),
      CTxIn.truncate (dsin 3 0)]"
    by (simp add: rebuilt_tx_def signing_run_state_eval entry_of_def dsin_def CTxIn.truncate_def)
  have 4: "prevout sig_for_1_1 = prevout (dsin 1 1)" "prevout sig_final_1_1 = prevout (dsin 1 1)"
    by (simp_all add: sig_for_1_1_def sig_final_1_1_def dsin_def)
  have 5: "fst (AddScriptSig index_env sig_for_1_1 signing_run_state)"
    by (simp add: sig_defs signing_run_state_eval index_env_def scenario_env_def sig_for_1_1_def
          entry_of_def dsin_def)
  have 6: "vin (finalMutableTransaction (snd (AddScriptSig index_env sig_for_1_1 signing_run_state))) =
     [sig_for_1_1, CTxIn.truncate (dsin 1 5), CTxIn.truncate (dsin 2 0), CTxIn.truncate (dsin 3 0)]"
    by (simp add: sig_defs signing_run_state_eval index_env_def scenario_env_def sig_for_1_1_def
          entry_of_def dsin_def)
  have 7: "\<not> VerifyScript index_env (scriptSig sig_for_1_1) (prevPubKey (dsin 1 1))
       ((finalMutableTransaction signing_run_state)
          \<lparr>vin := (vin (finalMutableTransaction signing_run_state))
                     [0 := (vin (finalMutableTransaction signing_run_state) ! 0)
                             \<lparr>scriptSig := scriptSig sig_for_1_1\<rparr>]\<rparr>) 0"
    by (simp add: index_env_def sig_for_1_1_def)
  have 8: "VerifyScript index_env (scriptSig sig_final_1_1) (prevPubKey (dsin 1 1))
       ((finalMutableTransaction signing_run_state)
          \<lparr>vin := (vin (finalMutableTransaction signing_run_state))
                     [0 := (vin (finalMutableTransaction signing_run_state) ! 0)
                             \<lparr>scriptSig := scriptSig sig_final_1_1\<rparr>]\<rparr>) 0"
    by (simp add: index_env_def sig_final_1_1_def)
  have 9: "AddScriptSig index_env sig_final_1_1 signing_run_state = (False, signing_run_state)"
    by (simp add: sig_defs signing_run_state_eval index_env_def scenario_env_def sig_final_1_1_def
          entry_of_def dsin_def)
  have 10: "\<not> IsInputScriptSigValid index_env sig_final_1_1 signing_run_state"
    by (simp add: sig_defs signing_run_state_eval index_env_def scenario_env_def sig_final_1_1_def
          entry_of_def dsin_def)
  from reachable_run(3) 1 2 3 4 5 6 7 8 9 10 show ?thesis by blast
qed

section \<open>Admitting entries\<close>

lemma AddEntry_rejected:
  assumes "\<not> fst (AddEntry e entry m s)"
  shows "snd (snd (AddEntry e entry m s)) = s \<or>
         snd (snd (AddEntry e entry m s)) = ConsumeCollateral e (txCollateral entry) s"
  using assms by (auto simp: AddEntry_def Let_def split_def split: if_splits)

lemma AddEntry_rejected_entries:
  assumes "\<not> fst (AddEntry e entry m s)"
  shows "vecEntries (snd (snd (AddEntry e entry m s))) = vecEntries s"
  using AddEntry_rejected[OF assms] by (auto simp: ConsumeCollateral_eq)

lemma AddEntry_accepted:
  assumes "fst (AddEntry e entry m s)"
  shows "fMasternodeMode e \<and> length (vecEntries s) < length (vecSessionCollaterals s) \<and>
         snd (snd (AddEntry e entry m s)) = s\<lparr>vecEntries := vecEntries s @ [entry]\<rparr> \<and>
         (\<forall>other \<in> set (vecEntries s). entry_prevouts entry \<inter> entry_prevouts other = {})"
  using AddEntry_cases[of e s entry m] assms by blast

lemma Process_DSVIN_not_ready:
  assumes "\<not> IsSessionReady e s"
  shows "vecEntries (ProcessMessage e pfrom (DSVIN entry) s) = vecEntries s"
  using assms by (simp add: Process_DSVIN_def PushStatus_def emit_def)


text \<open>
  C2 (as amended).  \<^verbatim>\<open>AddEntry\<close> does not look at the session state.  It appends the entry
  only on a masternode and only when the entries count is strictly less than the
  collaterals count; whenever the entries count is greater than or equal to the collaterals
  count it fails with \<^verbatim>\<open>ERR_ENTRIES_FULL\<close> and leaves the pool unchanged; a rejected entry is
  never appended.  The \<^verbatim>\<open>dsi\<close> dispatcher calls it only when \<^verbatim>\<open>IsSessionReady\<close> holds, which
  is the case in AcceptingEntries and also in Queue once the queue is full or has timed out
  with enough participants.  In every reachable state the number of entries does not exceed
  the number of collaterals.
\<close>

theorem C2_AddEntry:
  "(fst (AddEntry e entry m s) \<longrightarrow>
      fMasternodeMode e \<and> length (vecEntries s) < length (vecSessionCollaterals s) \<and>
      snd (snd (AddEntry e entry m s)) = s\<lparr>vecEntries := vecEntries s @ [entry]\<rparr>) \<and>
   (\<not> fst (AddEntry e entry m s) \<longrightarrow>
      vecEntries (snd (snd (AddEntry e entry m s))) = vecEntries s) \<and>
   (fMasternodeMode e \<and> length (vecEntries s) \<ge> length (vecSessionCollaterals s) \<longrightarrow>
      AddEntry e entry m s = (False, ERR_ENTRIES_FULL, s)) \<and>
   (\<not> IsSessionReady e s \<longrightarrow>
      vecEntries (ProcessMessage e pfrom (DSVIN entry) s) = vecEntries s) \<and>
   (IsSessionReady e s \<longrightarrow>
      nState s = POOL_STATE_QUEUE \<or> nState s = POOL_STATE_ACCEPTING_ENTRIES) \<and>
   (reachable s \<longrightarrow> length (vecEntries s) \<le> length (vecSessionCollaterals s))"
proof (intro conjI impI)
  assume "fst (AddEntry e entry m s)"
  from AddEntry_accepted[OF this]
  show "fMasternodeMode e" "length (vecEntries s) < length (vecSessionCollaterals s)"
       "snd (snd (AddEntry e entry m s)) = s\<lparr>vecEntries := vecEntries s @ [entry]\<rparr>"
    by blast+
next
  assume "\<not> fst (AddEntry e entry m s)"
  thus "vecEntries (snd (snd (AddEntry e entry m s))) = vecEntries s"
    by (rule AddEntry_rejected_entries)
next
  assume "fMasternodeMode e \<and> length (vecEntries s) \<ge> length (vecSessionCollaterals s)"
  thus "AddEntry e entry m s = (False, ERR_ENTRIES_FULL, s)"
    by (simp add: AddEntry_def GetEntriesCount_def)
next
  assume "\<not> IsSessionReady e s"
  thus "vecEntries (ProcessMessage e pfrom (DSVIN entry) s) = vecEntries s"
    by (rule Process_DSVIN_not_ready)
next
  assume "IsSessionReady e s"
  thus "nState s = POOL_STATE_QUEUE \<or> nState s = POOL_STATE_ACCEPTING_ENTRIES"
    by (rule IsSessionReady_state)
next
  assume "reachable s"
  hence "session_inv s" by (rule reachable_session_inv)
  thus "length (vecEntries s) \<le> length (vecSessionCollaterals s)"
    by (simp add: session_inv_def)
qed


text \<open>
  In the run: the first entry is appended to the empty pool; a fourth entry is refused once
  three entries stand against three collaterals.
\<close>

theorem C2_AddEntry_witness:
  "AddEntry scenario_env (entry_of 1 [dsin 2 0, dsin 1 5]) MSG_NOERR ready_state =
     (True, MSG_ENTRIES_ADDED, ready_state\<lparr>vecEntries := [entry_of 1 [dsin 2 0, dsin 1 5]]\<rparr>) \<and>
   AddEntry scenario_env (entry_of 4 [dsin 9 9]) MSG_NOERR signing_run_state =
     (False, ERR_ENTRIES_FULL, signing_run_state) \<and>
   length (vecEntries signing_run_state) \<le> length (vecSessionCollaterals signing_run_state)"
proof -
  let ?en = "entry_of 1 [dsin 2 0, dsin 1 5]"
  have ok: "fst (AddEntry scenario_env ?en MSG_NOERR ready_state)"
       "fst (snd (AddEntry scenario_env ?en MSG_NOERR ready_state)) = MSG_ENTRIES_ADDED"
    by (simp_all add: AddEntry_def GetEntriesCount_def ready_fields scenario_env_def
          PRIVATESEND_ENTRY_MAX_SIZE_def entry_of_def Let_def)
  from C2_AddEntry [of scenario_env ?en MSG_NOERR ready_state] ok(1)
  have "snd (snd (AddEntry scenario_env ?en MSG_NOERR ready_state)) =
          ready_state\<lparr>vecEntries := vecEntries ready_state @ [?en]\<rparr>" by blast
  with ok have a: "AddEntry scenario_env ?en MSG_NOERR ready_state =
     (True, MSG_ENTRIES_ADDED, ready_state\<lparr>vecEntries := [?en]\<rparr>)"
    by (simp add: ready_fields prod_eq_iff)
  have full: "fMasternodeMode scenario_env \<and>
     length (vecEntries signing_run_state) \<ge> length (vecSessionCollaterals signing_run_state)"
    by (simp add: signing_run_state_eval scenario_env_def)
  from C2_AddEntry [of scenario_env "entry_of 4 [dsin 9 9]" MSG_NOERR signing_run_state] full
  have b: "AddEntry scenario_env (entry_of 4 [dsin 9 9]) MSG_NOERR signing_run_state =
     (False, ERR_ENTRIES_FULL, signing_run_state)" by blast
  from C2_AddEntry [of scenario_env ?en MSG_NOERR signing_run_state] reachable_run(3)
  have c: "length (vecEntries signing_run_state) \<le> length (vecSessionCollaterals signing_run_state)"
    by blast
  from a b c show ?thesis by blast
qed


text \<open>
  The claim as stated fails: after the third \<^verbatim>\<open>dsa\<close> the session is still in Queue, and a
  \<^verbatim>\<open>dsi\<close> arriving before the next tick is admitted.
\<close>

theorem C2_counterexample:
  "reachable queue_full_state \<and> nState queue_full_state = POOL_STATE_QUEUE \<and>
   fst (AddEntry scenario_env (entry_of 1 [dsin 2 0, dsin 1 5]) MSG_NOERR queue_full_state) \<and>
   vecEntries (ProcessMessage scenario_env (peer 1) (DSVIN (entry_of 1 [dsin 2 0, dsin 1 5]))
                 queue_full_state) = [entry_of 1 [dsin 2 0, dsin 1 5]]"
proof -
  have "nState queue_full_state = POOL_STATE_QUEUE"
    by (simp add: queue_full_state_eval queue_state_1_eval initial_server_def)
  moreover have "fst (AddEntry scenario_env (entry_of 1 [dsin 2 0, dsin 1 5]) MSG_NOERR queue_full_state)"
    by (simp add: queue_full_state_eval queue_state_1_eval initial_server_def msg_defs scen_defs)
  moreover have "vecEntries (ProcessMessage scenario_env (peer 1) (DSVIN (entry_of 1 [dsin 2 0, dsin 1 5]))
                 queue_full_state) = [entry_of 1 [dsin 2 0, dsin 1 5]]"
    by (simp add: queue_full_state_eval queue_state_1_eval initial_server_def msg_defs scen_defs)
  ultimately show ?thesis using reachable_run(1) by blast
qed

text \<open>
  C3 (as amended).  An entry that shares an input OutPoint with an admitted entry is never
  admitted and never appended.  If it gets as far as the duplicate check (masternode, pool
  not full, valid collateral, at most \<^verbatim>\<open>PRIVATESEND_ENTRY_MAX_SIZE\<close> inputs) it fails with
  \<^verbatim>\<open>ERR_ALREADY_HAVE\<close>, and nothing at all changes: no collateral is consumed.  In every
  reachable state the input sets of any two admitted entries are disjoint.
\<close>

theorem C3_duplicate_inputs:
  "((\<exists>other \<in> set (vecEntries s). entry_prevouts entry \<inter> entry_prevouts other \<noteq> {}) \<longrightarrow>
      \<not> fst (AddEntry e entry m s) \<and>
      vecEntries (snd (snd (AddEntry e entry m s))) = vecEntries s) \<and>
   ((\<exists>other \<in> set (vecEntries s). entry_prevouts entry \<inter> entry_prevouts other \<noteq> {}) \<and>
    fMasternodeMode e \<and> length (vecEntries s) < length (vecSessionCollaterals s) \<and>
    IsCollateralValid e (txCollateral entry) \<and>
    length (vecTxDSIn entry) \<le> PRIVATESEND_ENTRY_MAX_SIZE \<longrightarrow>
      AddEntry e entry m s = (False, ERR_ALREADY_HAVE, s)) \<and>
   (reachable s \<longrightarrow>
      (\<forall>i j. i < j \<and> j < length (vecEntries s) \<longrightarrow>
         entry_prevouts (vecEntries s ! i) \<inter> entry_prevouts (vecEntries s ! j) = {}))"
proof (intro conjI impI)
  assume dup: "\<exists>other \<in> set (vecEntries s). entry_prevouts entry \<inter> entry_prevouts other \<noteq> {}"
  show no: "\<not> fst (AddEntry e entry m s)"
  proof
    assume "fst (AddEntry e entry m s)"
    from AddEntry_accepted[OF this] dup show False by blast
  qed
  thus "vecEntries (snd (snd (AddEntry e entry m s))) = vecEntries s"
    by (rule AddEntry_rejected_entries)
next
  assume a: "(\<exists>other \<in> set (vecEntries s). entry_prevouts entry \<inter> entry_prevouts other \<noteq> {}) \<and>
    fMasternodeMode e \<and> length (vecEntries s) < length (vecSessionCollaterals s) \<and>
    IsCollateralValid e (txCollateral entry) \<and>
    length (vecTxDSIn entry) \<le> PRIVATESEND_ENTRY_MAX_SIZE"
  thus "AddEntry e entry m s = (False, ERR_ALREADY_HAVE, s)"
    unfolding AddEntry_def duplicate_input_iff by (simp add: GetEntriesCount_def)
next
  assume "reachable s"
  hence "session_inv s" by (rule reachable_session_inv)
  hence "sorted_wrt (\<lambda>A B. A \<inter> B = {}) (map entry_prevouts (vecEntries s))"
    by (simp add: session_inv_def)
  thus "\<forall>i j. i < j \<and> j < length (vecEntries s) \<longrightarrow>
         entry_prevouts (vecEntries s ! i) \<inter> entry_prevouts (vecEntries s ! j) = {}"
    by (auto simp: sorted_wrt_iff_nth_less)
qed


text \<open>
  In the run: a second entry spending (h2, 0) again is refused with \<^verbatim>\<open>ERR_ALREADY_HAVE\<close>,
  and the first two entries of the signing state spend disjoint outpoints.
\<close>

theorem C3_duplicate_inputs_witness:
  "AddEntry scenario_env (entry_of 2 [dsin 2 0]) MSG_NOERR one_entry_state =
     (False, ERR_ALREADY_HAVE, one_entry_state) \<and>
   entry_prevouts (vecEntries signing_run_state ! 0) \<inter>
   entry_prevouts (vecEntries signing_run_state ! 1) = {}"
proof -
  have pre: "(\<exists>other \<in> set (vecEntries one_entry_state).
                entry_prevouts (entry_of 2 [dsin 2 0]) \<inter> entry_prevouts other \<noteq> {}) \<and>
    fMasternodeMode scenario_env \<and>
    length (vecEntries one_entry_state) < length (vecSessionCollaterals one_entry_state) \<and>
    IsCollateralValid scenario_env (txCollateral (entry_of 2 [dsin 2 0])) \<and>
    length (vecTxDSIn (entry_of 2 [dsin 2 0])) \<le> PRIVATESEND_ENTRY_MAX_SIZE"
    by (simp add: one_entry_fields entry_prevouts_def entry_of_def scenario_env_def
          PRIVATESEND_ENTRY_MAX_SIZE_def)
  from C3_duplicate_inputs [of one_entry_state "entry_of 2 [dsin 2 0]" scenario_env MSG_NOERR] pre
  have a: "AddEntry scenario_env (entry_of 2 [dsin 2 0]) MSG_NOERR one_entry_state =
     (False, ERR_ALREADY_HAVE, one_entry_state)" by blast
  have "(0::nat) < 1 \<and> 1 < length (vecEntries signing_run_state)"
    by (simp add: signing_run_state_eval)
  with C3_duplicate_inputs [of signing_run_state "entry_of 2 [dsin 2 0]" scenario_env MSG_NOERR]
       reachable_run(3)
  have b: "entry_prevouts (vecEntries signing_run_state ! 0) \<inter>
   entry_prevouts (vecEntries signing_run_state ! 1) = {}" by blast
  from a b show ?thesis by blast
qed


text \<open>
  The claim as stated fails for an entry of ten inputs one of which is already in the pool:
  the size check comes first, the reason is \<^verbatim>\<open>ERR_MAXIMUM\<close> and the submitter's collateral
  is handed to the mempool.
\<close>

theorem C3_counterexample:
  "reachable one_entry_state \<and>
   prevout (dsin 2 0) \<in> entry_prevouts big_entry \<inter> entry_prevouts (vecEntries one_entry_state ! 0) \<and>
   ProcessMessage scenario_env (peer 2) (DSVIN big_entry) one_entry_state =
     one_entry_state
       \<lparr>sent := sent one_entry_state @
                 [MempoolSubmit (collateral_of 2), RelayTransaction (collateral_of 2),
                  MsgStatusUpdate 2 1 POOL_STATE_ACCEPTING_ENTRIES 0 STATUS_REJECTED ERR_MAXIMUM]\<rparr>"
proof -
  have "prevout (dsin 2 0) \<in> entry_prevouts big_entry \<inter> entry_prevouts (vecEntries one_entry_state ! 0)"
    by (simp add: one_entry_fields entry_prevouts_def big_entry_def entry_of_def)
  moreover have "ProcessMessage scenario_env (peer 2) (DSVIN big_entry) one_entry_state =
     one_entry_state
       \<lparr>sent := sent one_entry_state @
                 [MempoolSubmit (collateral_of 2), RelayTransaction (collateral_of 2),
                  MsgStatusUpdate 2 1 POOL_STATE_ACCEPTING_ENTRIES 0 STATUS_REJECTED ERR_MAXIMUM]\<rparr>"
    by (simp add: one_entry_fields big_entry_def msg_defs scenario_env_def peer_def entry_of_def)
  ultimately show ?thesis using reachable_run(2) by blast
qed

section \<open>Signatures and the session state\<close>

lemma IsInputScriptSigValid_nState [simp]:
  "IsInputScriptSigValid e txin (s\<lparr>nState := st\<rparr>) = IsInputScriptSigValid e txin s"
  by (simp add: IsInputScriptSigValid_def rebuilt_tx_def)

lemma AddScriptSig_nState:
  "AddScriptSig e txin (s\<lparr>nState := st\<rparr>) =
     (fst (AddScriptSig e txin s), (snd (AddScriptSig e txin s))\<lparr>nState := st\<rparr>)"
  by (simp add: AddScriptSig_def Let_def split: option.splits)

lemma no_outpoint_no_match:
  assumes "\<forall>entry \<in> set (vecEntries s). prevout txin \<notin> entry_prevouts entry"
  shows "\<not> IsInputScriptSigValid e txin s"
proof -
  have "\<not> last_match (prevout txin) (entries_dsins s) i" for i
  proof
    assume "last_match (prevout txin) (entries_dsins s) i"
    hence i: "i < length (entries_dsins s)" "prevout (entries_dsins s ! i) = prevout txin"
      by (simp_all add: last_match_def)
    from i(1) have "entries_dsins s ! i \<in> set (entries_dsins s)" by (rule nth_mem)
    then obtain entry where "entry \<in> set (vecEntries s)" "entries_dsins s ! i \<in> set (vecTxDSIn entry)"
      by (auto simp: entries_dsins_def)
    with i(2) assms show False by (force simp: entry_prevouts_def)
  qed
  thus ?thesis by (simp add: IsInputScriptSigValid_iff)
qed


text \<open>
  C6 (as amended).  \<^verbatim>\<open>AddScriptSig\<close> does not look at the session state, and neither does
  the \<^verbatim>\<open>dss\<close> dispatcher: its verdict and what it does to entries and final transaction
  are the same in every state, and it never changes the state.  A submitted input is
  rejected with no field changed whenever no admitted entry holds an input with its
  OutPoint; this is so in every reachable Idle state, where there are no entries.
\<close>

theorem C6_AddScriptSig_any_state:
  "AddScriptSig e txin (s\<lparr>nState := st\<rparr>) =
     (fst (AddScriptSig e txin s), (snd (AddScriptSig e txin s))\<lparr>nState := st\<rparr>) \<and>
   ((\<forall>entry \<in> set (vecEntries s). prevout txin \<notin> entry_prevouts entry) \<longrightarrow>
      AddScriptSig e txin s = (False, s)) \<and>
   (reachable s \<and> nState s = POOL_STATE_IDLE \<longrightarrow> AddScriptSig e txin s = (False, s)) \<and>
   (fst (AddScriptSig e txin s) \<longrightarrow> nState (snd (AddScriptSig e txin s)) = nState s)"
proof (intro conjI impI)
  show "AddScriptSig e txin (s\<lparr>nState := st\<rparr>) =
     (fst (AddScriptSig e txin s), (snd (AddScriptSig e txin s))\<lparr>nState := st\<rparr>)"
    by (rule AddScriptSig_nState)
next
  assume "\<forall>entry \<in> set (vecEntries s). prevout txin \<notin> entry_prevouts entry"
  hence "\<not> IsInputScriptSigValid e txin s" by (rule no_outpoint_no_match)
  thus "AddScriptSig e txin s = (False, s)" by (simp add: AddScriptSig_def)
next
  assume "reachable s \<and> nState s = POOL_STATE_IDLE"
  hence "vecEntries s = []" using reachable_session_inv by (auto simp: session_inv_def)
  hence "\<not> IsInputScriptSigValid e txin s" by (intro no_outpoint_no_match) simp
  thus "AddScriptSig e txin s = (False, s)" by (simp add: AddScriptSig_def)
next
  assume "fst (AddScriptSig e txin s)"
  from AddScriptSig_accepted[OF this]
  show "nState (snd (AddScriptSig e txin s)) = nState s" by blast
qed


text \<open>
  In the run: a signature offered to the freshly constructed server and one for an outpoint
  nobody submitted are rejected without effect; an accepted one leaves the state alone.
\<close>

theorem C6_AddScriptSig_any_state_witness:
  "AddScriptSig scenario_env sig_for_2_0 (initial_server 1000) = (False, initial_server 1000) \<and>
   AddScriptSig scenario_env sig_for_1_1 one_entry_state = (False, one_entry_state) \<and>
   nState (snd (AddScriptSig scenario_env sig_for_2_0 one_entry_state)) = POOL_STATE_ACCEPTING_ENTRIES"
proof -
  have "nState (initial_server 1000) = POOL_STATE_IDLE" by (simp add: initial_server_def)
  with reach_init [of 1000]
  have idle: "reachable (initial_server 1000) \<and> nState (initial_server 1000) = POOL_STATE_IDLE"
    by blast
  from C6_AddScriptSig_any_state [where e = scenario_env and txin = sig_for_2_0 and s = "initial_server 1000"] idle
  have a: "AddScriptSig scenario_env sig_for_2_0 (initial_server 1000) = (False, initial_server 1000)"
    by blast
  have none: "\<forall>entry \<in> set (vecEntries one_entry_state). prevout sig_for_1_1 \<notin> entry_prevouts entry"
    by (simp add: one_entry_fields entry_prevouts_def entry_of_def dsin_def sig_for_1_1_def)
  from C6_AddScriptSig_any_state [where e = scenario_env and txin = sig_for_1_1 and s = one_entry_state] none
  have b: "AddScriptSig scenario_env sig_for_1_1 one_entry_state = (False, one_entry_state)"
    by blast
  have ok: "fst (AddScriptSig scenario_env sig_for_2_0 one_entry_state)"
    by (simp add: sig_defs one_entry_fields scenario_env_def sig_for_2_0_def entry_of_def dsin_def)
  from C6_AddScriptSig_any_state [where e = scenario_env and txin = sig_for_2_0 and s = one_entry_state] ok
  have "nState (snd (AddScriptSig scenario_env sig_for_2_0 one_entry_state)) = nState one_entry_state"
    by blast
  hence c: "nState (snd (AddScriptSig scenario_env sig_for_2_0 one_entry_state)) =
            POOL_STATE_ACCEPTING_ENTRIES"
    by (simp add: one_entry_fields)
  from a b c show ?thesis by blast
qed


text \<open>
  The claim as stated fails: while the session is still accepting entries, a \<^verbatim>\<open>dss\<close> with a
  signature for the admitted input (h2, 0) succeeds and the entry is changed.
\<close>

theorem C6_counterexample:
  "reachable one_entry_state \<and> nState one_entry_state = POOL_STATE_ACCEPTING_ENTRIES \<and>
   fst (AddScriptSig scenario_env sig_for_2_0 one_entry_state) \<and>
   vecEntries (ProcessMessage scenario_env (peer 1) (DSSIGNFINALTX [sig_for_2_0]) one_entry_state) =
     [entry_of 1 [(dsin 2 0)\<lparr>scriptSig := [7], fHasSig := True\<rparr>, dsin 1 5]] \<and>
   vecEntries (ProcessMessage scenario_env (peer 1) (DSSIGNFINALTX [sig_for_2_0]) one_entry_state)
     \<noteq> vecEntries one_entry_state"
proof -
  have ok: "fst (AddScriptSig scenario_env sig_for_2_0 one_entry_state)"
    by (simp add: sig_defs one_entry_fields scenario_env_def sig_for_2_0_def entry_of_def dsin_def)
  have v: "vecEntries (ProcessMessage scenario_env (peer 1) (DSSIGNFINALTX [sig_for_2_0]) one_entry_state) =
     [entry_of 1 [(dsin 2 0)\<lparr>scriptSig := [7], fHasSig := True\<rparr>, dsin 1 5]]"
    by (simp add: sig_defs one_entry_fields msg_defs scenario_env_def peer_def sig_for_2_0_def
          entry_of_def dsin_def)
  have "[entry_of 1 [(dsin 2 0)\<lparr>scriptSig := [7], fHasSig := True\<rparr>, dsin 1 5]] \<noteq> vecEntries one_entry_state"
    by (simp add: one_entry_fields entry_of_def dsin_def)
  with ok v reachable_run(2) one_entry_fields(2) show ?thesis by simp
qed

end
